theory Spec2Isabelle
  imports Main "HOL-Library.Multiset"
begin

section \<open>Errors\<close>

text \<open>
  The exceptions the sources throw and catch.  \<open>Error msg\<close> is JavaScript's
  \<open>new Error(msg)\<close>; \<open>UserCancelledError\<close>, \<open>NotImplementedError\<close> (with the name of the
  missing method) and \<open>ArgumentError\<close> are the error classes of the repository;
  \<open>ServiceError msg body\<close> is an error of a service client, with the body of the response
  (\<open>error.response.body\<close>) when it carries one.
\<close>

datatype error =
    Error string
  | UserCancelledError
  | NotImplementedError string
  | ArgumentError
  | ServiceError string "string option"

section \<open>Resource identifiers: \<open>parseAzureResourceId\<close>\<close>

text \<open>
  A property value of a JavaScript object: a string, or \<open>undefined\<close> (what an array read
  past the end yields).
\<close>

datatype jsval = Undefined | Str string

text \<open>\<open>String.prototype.split('/')\<close>: the segments between the slashes, empty ones kept;
  the empty string has the single segment \<open>''''\<close>.\<close>

fun split_slash :: "string \<Rightarrow> string list" where
  "split_slash [] = [[]]"
| "split_slash (c # cs) =
     (if c = CHR ''/'' then [] # split_slash cs
      else (case split_slash cs of
              [] \<Rightarrow> [[c]]
            | p # ps \<Rightarrow> (c # p) # ps))"

text \<open>\<open>charAt(i)\<close>: the one-character string at \<open>i\<close>, the empty string out of range.\<close>

definition charAt :: "string \<Rightarrow> nat \<Rightarrow> string" where
  "charAt s i = (if i < length s then [s ! i] else [])"

text \<open>\<open>parts[i]\<close>: \<open>undefined\<close> out of range.\<close>

definition js_index :: "string list \<Rightarrow> nat \<Rightarrow> jsval" where
  "js_index parts i = (if i < length parts then Str (parts ! i) else Undefined)"

definition invalidIdErr :: error where
  "invalidIdErr = Error ''Invalid Account ID.''"

text \<open>
  \<open>result[key] = value\<close> on an object made by the literal \<open>{}\<close>, for a value that is a
  string or \<open>undefined\<close>.  The object is the finite map of its own properties.  Its
  prototype is \<open>Object.prototype\<close>, where the one inherited property with a setter is
  \<open>__proto__\<close>: an assignment under that name runs the setter, which ignores a value that
  is neither an object nor \<open>null\<close>, and the object gets no property.  Under every other
  name the assignment makes or overwrites an own property.
\<close>

definition setProperty :: "string \<Rightarrow> jsval \<Rightarrow> (string \<rightharpoonup> jsval) \<Rightarrow> (string \<rightharpoonup> jsval)" where
  "setProperty key val obj = (if key = ''__proto__'' then obj else obj(key \<mapsto> val))"

text \<open>
  The \<open>for (i = 0; i < parts.length; i += 2)\<close> loop on the object \<open>result\<close>.  A key read
  past the end of \<open>parts\<close> would name the property \<open>undefined\<close>.
\<close>

function parse_loop :: "string list \<Rightarrow> nat \<Rightarrow> (string \<rightharpoonup> jsval) \<Rightarrow> error + (string \<rightharpoonup> jsval)" where
  "parse_loop parts i result =
     (if i < length parts then
        (let key = js_index parts i;
             val = js_index parts (i + 1)
         in if key = Str [] \<or> val = Str [] then Inl invalidIdErr
            else parse_loop parts (i + 2)
                   (setProperty (case key of Str k \<Rightarrow> k | Undefined \<Rightarrow> ''undefined'') val result))
      else Inr result)"
  by pat_completeness auto
termination
  by (relation "measure (\<lambda>(parts, i, result). length parts - i)") auto

declare parse_loop.simps [simp del]

definition parseAzureResourceId :: "string \<Rightarrow> error + (string \<rightharpoonup> jsval)" where
  "parseAzureResourceId resourceId =
     (if resourceId = [] \<or> length resourceId < 2 \<or> charAt resourceId 0 \<noteq> ''/''
      then Inl invalidIdErr
      else (let parts = split_slash (drop 1 resourceId)
            in if length parts mod 2 \<noteq> 0 then Inl invalidIdErr
               else parse_loop parts 0 Map.empty))"

text \<open>The claim's reading of an identifier, for comparison with the code: the segments
  taken two by two, and the strings the claim rejects.\<close>

fun segment_pairs :: "string list \<Rightarrow> (string \<times> jsval) list" where
  "segment_pairs (k # v # rest) = (k, Str v) # segment_pairs rest"
| "segment_pairs _ = []"

definition rejected_id :: "string \<Rightarrow> bool" where
  "rejected_id s \<longleftrightarrow>
     s = [] \<or> length s < 2 \<or> hd s \<noteq> CHR ''/'' \<or>
     odd (length (split_slash (tl s))) \<or> [] \<in> set (split_slash (tl s))"

section \<open>The tree: nodes, parents and their child cache\<close>

text \<open>
  The data of a tree item (\<open>IAzureTreeItem\<close>): its label, its optional id, its context
  value (the tag pickers match on), its optional command, and whether it carries a
  \<open>loadMoreChildren\<close> method, which is what makes \<open>createNewNode\<close> wrap it in a parent
  node.  Icon paths are presentation only and are left out.
\<close>

record azureTreeItem =
  label :: string
  itemId :: "string option"
  contextValue :: string
  commandId :: "string option"
  isParentItem :: bool

text \<open>
  A node object (\<open>AzureNode\<close>).  \<open>ref\<close> is the identity of the object: \<open>indexOf\<close> and
  \<open>===\<close> compare nodes by it.  \<open>isParentNode\<close> is \<open>instanceof AzureParentNode\<close>.
\<close>

record azureNode =
  ref :: nat
  treeItem :: azureTreeItem
  parent :: "nat option"
  isParentNode :: bool

text \<open>The private fields of an \<open>AzureParentNode\<close>; \<open>None\<close> is the cache \<open>undefined\<close>.\<close>

record parentFields =
  cachedChildren :: "azureNode list option"
  creatingNodes :: "azureNode list"

definition newParentFields :: parentFields where
  "newParentFields = \<lparr>cachedChildren = None, creatingNodes = []\<rparr>"

text \<open>
  The objects of the tree: the fields of every parent node by its identity, the next
  unused identity, and the nodes the provider's change event was fired with, oldest
  first (\<open>None\<close> is the event for the whole tree).
\<close>

record treeState =
  heap :: "nat \<Rightarrow> parentFields"
  nextRef :: nat
  fired :: "nat option list"

definition emptyTree :: treeState where
  "emptyTree = \<lparr>heap = (\<lambda>r. newParentFields), nextRef = 0, fired = []\<rparr>"

text \<open>
  The methods of a parent's tree item (\<open>IAzureParentTreeItem\<close>) that the parent node
  consults: the optional comparator, the optional \<open>pickTreeItem\<close>, whether \<open>createChild\<close>
  is there, and \<open>childTypeLabel\<close>.
\<close>

record resource =
  compareChildren :: "(azureNode \<Rightarrow> azureNode \<Rightarrow> int) option"
  pickTreeItem :: "(string \<Rightarrow> azureTreeItem option) option"
  hasCreateChild :: bool
  childTypeLabel :: "string option"

text \<open>
  \<open>String.prototype.localeCompare\<close> belongs to the host: it compares two strings by the
  collation of the locale the program runs under, and answers a negative number, zero or
  a positive number.  The sources do not fix that collation, so it is a parameter of
  every operation that compares labels, named \<open>localeCompare\<close> there as in the code.
\<close>

type_synonym collation = "string \<Rightarrow> string \<Rightarrow> int"

text \<open>
  One collation, for running the operations on examples: the comparison of two strings
  by their character codes, with the answers \<open>-1\<close>, \<open>0\<close> and \<open>1\<close>.  The collation of an
  English locale agrees with it on labels made of lower-case ASCII letters and not on
  all others: that collation puts \<open>a\<close> before \<open>B\<close>, the character codes put \<open>B\<close> first.
\<close>

fun codeUnitCompare :: collation where
  "codeUnitCompare [] [] = 0"
| "codeUnitCompare [] (y # ys) = - 1"
| "codeUnitCompare (x # xs) [] = 1"
| "codeUnitCompare (x # xs) (y # ys) =
     (if (of_char x :: nat) < of_char y then - 1
      else if (of_char y :: nat) < of_char x then 1
      else codeUnitCompare xs ys)"

text \<open>
  \<open>Array.prototype.sort(cmp)\<close>: a stable sort, here by insertion; an element goes before
  the first one the comparator puts it strictly before.
\<close>

fun sort_insert :: "('a \<Rightarrow> 'a \<Rightarrow> int) \<Rightarrow> 'a \<Rightarrow> 'a list \<Rightarrow> 'a list" where
  "sort_insert cmp x [] = [x]"
| "sort_insert cmp x (y # ys) =
     (if cmp x y < 0 then x # y # ys else y # sort_insert cmp x ys)"

definition js_sort :: "('a \<Rightarrow> 'a \<Rightarrow> int) \<Rightarrow> 'a list \<Rightarrow> 'a list" where
  "js_sort cmp xs = foldl (\<lambda>acc x. sort_insert cmp x acc) [] xs"

text \<open>\<open>Array.prototype.indexOf\<close> on nodes: the first position holding that object, or \<open>-1\<close>.\<close>

fun indexOf :: "azureNode list \<Rightarrow> azureNode \<Rightarrow> int" where
  "indexOf [] n = - 1"
| "indexOf (x # xs) n =
     (if ref x = ref n then 0
      else (let i = indexOf xs n in if i < 0 then - 1 else i + 1))"

text \<open>\<open>xs.splice(start, 1)\<close>: a negative \<open>start\<close> counts from the end.\<close>

definition splice_remove :: "int \<Rightarrow> 'a list \<Rightarrow> 'a list" where
  "splice_remove start xs =
     (let len = int (length xs);
          s = nat (if start < 0 then max (len + start) 0 else min start len)
      in take s xs @ drop (s + 1) xs)"

text \<open>\<open>xs.splice(index, 0, x)\<close> for \<open>0 \<le> index\<close>.\<close>

definition splice_insert :: "nat \<Rightarrow> 'a \<Rightarrow> 'a list \<Rightarrow> 'a list" where
  "splice_insert index x xs = take index xs @ x # drop index xs"

definition setFields :: "azureNode \<Rightarrow> parentFields \<Rightarrow> treeState \<Rightarrow> treeState" where
  "setFields this f w = w\<lparr>heap := (heap w)(ref this := f)\<rparr>"

definition nodeFields :: "azureNode \<Rightarrow> treeState \<Rightarrow> parentFields" where
  "nodeFields this w = heap w (ref this)"

text \<open>
  \<open>AzureTreeDataProvider.refresh(node, clearCache)\<close>.  With \<open>clearCache\<close> a parent node's
  cache is dropped; the event is fired either way.  The optional \<open>refreshLabel\<close> hook of
  a tree item only relabels the item and is not modelled.
\<close>

definition clearCache :: "azureNode \<Rightarrow> treeState \<Rightarrow> treeState" where
  "clearCache this w = setFields this ((nodeFields this w)\<lparr>cachedChildren := None\<rparr>) w"

definition refresh :: "azureNode option \<Rightarrow> bool \<Rightarrow> treeState \<Rightarrow> treeState" where
  "refresh node clear w =
     (let w1 = (case node of
                  Some n \<Rightarrow> if clear \<and> isParentNode n then clearCache n w else w
                | None \<Rightarrow> w)
      in w1\<lparr>fired := fired w1 @ [map_option ref node]\<rparr>)"

text \<open>\<open>createNewNode\<close>: a fresh object, a parent node when the item can load children.\<close>

definition createNewNode :: "azureNode \<Rightarrow> azureTreeItem \<Rightarrow> treeState \<Rightarrow> azureNode \<times> treeState" where
  "createNewNode this t w =
     (let r = nextRef w
      in (\<lparr>ref = r, treeItem = t, parent = Some (ref this), isParentNode = isParentItem t\<rparr>,
          w\<lparr>heap := (heap w)(r := newParentFields), nextRef := r + 1\<rparr>))"

text \<open>\<open>newTreeItems.map(t => this.createNewNode(t))\<close>.\<close>

fun createNewNodes :: "azureNode \<Rightarrow> azureTreeItem list \<Rightarrow> treeState \<Rightarrow> azureNode list \<times> treeState" where
  "createNewNodes this [] w = ([], w)"
| "createNewNodes this (t # ts) w =
     (let (n, w1) = createNewNode this t w;
          (ns, w2) = createNewNodes this ts w1
      in (n # ns, w2))"

text \<open>The comparator \<open>loadMoreChildren\<close> sorts with: \<open>compareChildren\<close> when the tree item
  has one, the comparison of the labels otherwise.\<close>

definition defaultCompare :: "collation \<Rightarrow> azureNode \<Rightarrow> azureNode \<Rightarrow> int" where
  "defaultCompare localeCompare n1 n2 = localeCompare (label (treeItem n1)) (label (treeItem n2))"

definition sortCallback :: "collation \<Rightarrow> resource \<Rightarrow> azureNode \<Rightarrow> azureNode \<Rightarrow> int" where
  "sortCallback localeCompare res =
     (case compareChildren res of Some f \<Rightarrow> f | None \<Rightarrow> defaultCompare localeCompare)"

text \<open>
  \<open>AzureParentNode.loadMoreChildren\<close>.  \<open>page\<close> is what the tree item's own
  \<open>loadMoreChildren(this, clearCache)\<close> answers: a page of items, or an error thrown.
  The cache is set to the empty list before that call, and stays so when it throws.
\<close>

definition loadMoreChildren ::
  "collation \<Rightarrow> azureNode \<Rightarrow> resource \<Rightarrow> (bool \<Rightarrow> error + azureTreeItem list) \<Rightarrow> treeState
     \<Rightarrow> (error + unit) \<times> treeState" where
  "loadMoreChildren localeCompare this res page w =
     (let f = nodeFields this w;
          clear = (cachedChildren f = None);
          cached = (case cachedChildren f of None \<Rightarrow> [] | Some c \<Rightarrow> c);
          w1 = setFields this (f\<lparr>cachedChildren := Some cached\<rparr>) w
      in case page clear of
           Inl e \<Rightarrow> (Inl e, w1)
         | Inr newTreeItems \<Rightarrow>
             (let (nodes, w2) = createNewNodes this newTreeItems w1
              in (Inr (),
                  setFields this
                    ((nodeFields this w2)\<lparr>cachedChildren :=
                        Some (js_sort (sortCallback localeCompare res) (cached @ nodes))\<rparr>) w2)))"

definition getCachedChildren ::
  "collation \<Rightarrow> azureNode \<Rightarrow> resource \<Rightarrow> (bool \<Rightarrow> error + azureTreeItem list) \<Rightarrow> treeState
     \<Rightarrow> (error + azureNode list) \<times> treeState" where
  "getCachedChildren localeCompare this res page w =
     (let (r, w1) = (if cachedChildren (nodeFields this w) = None
                     then loadMoreChildren localeCompare this res page w else (Inr (), w))
      in case r of
           Inl e \<Rightarrow> (Inl e, w1)
         | Inr u \<Rightarrow> (Inr (case cachedChildren (nodeFields this w1) of Some c \<Rightarrow> c | None \<Rightarrow> []), w1))"

text \<open>The loop of \<open>addNodeToCache\<close>: the first index whose label the new label does not
  follow, the length of the cache when there is none.\<close>

fun insertIndex :: "collation \<Rightarrow> azureNode \<Rightarrow> azureNode list \<Rightarrow> nat" where
  "insertIndex localeCompare node [] = 0"
| "insertIndex localeCompare node (c # cs) =
     (if localeCompare (label (treeItem node)) (label (treeItem c)) < 1 then 0
      else Suc (insertIndex localeCompare node cs))"

definition addNodeToCache :: "collation \<Rightarrow> azureNode \<Rightarrow> azureNode \<Rightarrow> treeState \<Rightarrow> treeState" where
  "addNodeToCache localeCompare this node w =
     (case cachedChildren (nodeFields this w) of
        None \<Rightarrow> w
      | Some c \<Rightarrow>
          refresh (Some this) False
            (setFields this
               ((nodeFields this w)\<lparr>cachedChildren :=
                   Some (splice_insert (insertIndex localeCompare node c) node c)\<rparr>) w))"

definition removeNodeFromCache :: "azureNode \<Rightarrow> azureNode \<Rightarrow> treeState \<Rightarrow> treeState" where
  "removeNodeFromCache this node w =
     (case cachedChildren (nodeFields this w) of
        None \<Rightarrow> w
      | Some c \<Rightarrow>
          (let index = indexOf c node
           in if index \<noteq> - 1
              then refresh (Some this) False
                     (setFields this
                        ((nodeFields this w)\<lparr>cachedChildren := Some (splice_remove index c)\<rparr>) w)
              else w))"

text \<open>What \<open>getCachedChildren\<close> hands out without loading: the cache, or the empty list
  while the cache is \<open>undefined\<close>.\<close>

definition cacheList :: "azureNode \<Rightarrow> treeState \<Rightarrow> azureNode list" where
  "cacheList this w = (case cachedChildren (nodeFields this w) of None \<Rightarrow> [] | Some c \<Rightarrow> c)"

text \<open>
  A comparator that \<open>Array.prototype.sort\<close> can sort by: it never puts two elements each
  strictly after the other, and it is transitive.
\<close>

definition consistentComparator :: "('a \<Rightarrow> 'a \<Rightarrow> int) \<Rightarrow> bool" where
  "consistentComparator cmp \<longleftrightarrow>
     (\<forall>a b. 0 \<le> cmp a b \<longrightarrow> cmp b a \<le> 0) \<and>
     (\<forall>a b c. cmp a b \<le> 0 \<and> cmp b c \<le> 0 \<longrightarrow> cmp a c \<le> 0)"

text \<open>A list is sorted by a comparator when no element is put strictly after a later one.\<close>

definition sortedBy :: "('a \<Rightarrow> 'a \<Rightarrow> int) \<Rightarrow> 'a list \<Rightarrow> bool" where
  "sortedBy cmp xs = sorted_wrt (\<lambda>a b. cmp a b \<le> 0) xs"

text \<open>The items of an answer of the tree item's \<open>loadMoreChildren\<close>: none when it threw.\<close>

definition pageItems :: "(error + azureTreeItem list) \<Rightarrow> azureTreeItem list" where
  "pageItems r = (case r of Inl e \<Rightarrow> [] | Inr ts \<Rightarrow> ts)"

text \<open>A sequence of \<open>loadMoreChildren\<close> calls on one parent, one answer per call; a call
  that throws leaves the parent as the thrown call left it.\<close>

fun loadMoreSeq ::
  "collation \<Rightarrow> azureNode \<Rightarrow> resource \<Rightarrow> (bool \<Rightarrow> error + azureTreeItem list) list \<Rightarrow> treeState
     \<Rightarrow> treeState" where
  "loadMoreSeq localeCompare this res [] w = w"
| "loadMoreSeq localeCompare this res (p # ps) w =
     loadMoreSeq localeCompare this res ps (snd (loadMoreChildren localeCompare this res p w))"

text \<open>All the items those calls fetched, in order; only the first call of a parent whose
  cache is \<open>undefined\<close> is asked with \<open>clearCache\<close>.\<close>

fun fetched :: "bool \<Rightarrow> (bool \<Rightarrow> error + azureTreeItem list) list \<Rightarrow> azureTreeItem list" where
  "fetched clear [] = []"
| "fetched clear (p # ps) = pageItems (p clear) @ fetched False ps"

text \<open>The invariant of a parent's cache: the parent and its cached children are objects
  that exist, and no object is cached twice.\<close>

definition cacheInv :: "azureNode \<Rightarrow> treeState \<Rightarrow> bool" where
  "cacheInv this w \<longleftrightarrow>
     ref this < nextRef w \<and> (\<forall>n\<in>set (cacheList this w). ref n < nextRef w) \<and>
     distinct (map ref (cacheList this w))"

subsection \<open>A small tree to run the operations on\<close>

definition exampleItem :: "string \<Rightarrow> azureTreeItem" where
  "exampleItem l =
     \<lparr>label = l, itemId = None, contextValue = ''item'', commandId = None, isParentItem = False\<rparr>"

definition exampleRoot :: azureNode where
  "exampleRoot =
     \<lparr>ref = 0,
      treeItem = \<lparr>label = ''root'', itemId = None, contextValue = ''root'', commandId = None,
                  isParentItem = True\<rparr>,
      parent = None, isParentNode = True\<rparr>"

definition exampleTree :: treeState where
  "exampleTree = emptyTree\<lparr>nextRef := 1\<rparr>"

definition plainResource :: resource where
  "plainResource =
     \<lparr>compareChildren = None, pickTreeItem = None, hasCreateChild = False, childTypeLabel = None\<rparr>"

subsection \<open>Creating a child\<close>

text \<open>\<open>new AzureNode(parent, treeItem)\<close>: a fresh object that is not a parent node.\<close>

definition newAzureNode :: "azureNode option \<Rightarrow> azureTreeItem \<Rightarrow> treeState \<Rightarrow> azureNode \<times> treeState" where
  "newAzureNode p t w =
     (let r = nextRef w
      in (\<lparr>ref = r, treeItem = t, parent = map_option ref p, isParentNode = False\<rparr>,
          w\<lparr>nextRef := r + 1\<rparr>))"

text \<open>
  Modelled from the spec: the class \<open>CreatingTreeItem\<close> is not among the sources; the spec
  describes it as the transient "creating..." placeholder shown while a child is created.
\<close>

definition creatingTreeItem :: "string \<Rightarrow> azureTreeItem" where
  "creatingTreeItem l =
     \<lparr>label = ''Creating '' @ l @ ''...'', itemId = None, contextValue = ''azureCreating'',
      commandId = None, isParentItem = False\<rparr>"

text \<open>The callback \<open>createChild\<close> hands to the tree item: a new placeholder node is pushed
  on \<open>_creatingNodes\<close>, becomes \<open>creatingNode\<close>, and the parent is refreshed.\<close>

definition showCreatingNode :: "azureNode \<Rightarrow> string \<Rightarrow> treeState \<Rightarrow> azureNode \<times> treeState" where
  "showCreatingNode this l w =
     (let (cn, w1) = newAzureNode (Some this) (creatingTreeItem l) w;
          f = nodeFields this w1;
          w2 = setFields this (f\<lparr>creatingNodes := creatingNodes f @ [cn]\<rparr>) w1
      in (cn, refresh (Some this) False w2))"

text \<open>
  What the tree item's own \<open>createChild\<close> does with the parent during one call: it calls
  the callback with these labels, in this order, and then returns the new item or throws.
\<close>

type_synonym creation = "string list \<times> (error + azureTreeItem)"

fun runCallbacks :: "azureNode \<Rightarrow> string list \<Rightarrow> azureNode option \<Rightarrow> treeState \<Rightarrow> azureNode option \<times> treeState" where
  "runCallbacks this [] creatingNode w = (creatingNode, w)"
| "runCallbacks this (l # ls) creatingNode w =
     (let (cn, w1) = showCreatingNode this l w in runCallbacks this ls (Some cn) w1)"

text \<open>\<open>AzureParentNode.createChild\<close>, the \<open>finally\<close> block run on both outcomes.\<close>

definition createChild ::
  "collation \<Rightarrow> azureNode \<Rightarrow> resource \<Rightarrow> creation \<Rightarrow> treeState \<Rightarrow> (error + azureNode) \<times> treeState" where
  "createChild localeCompare this res behaviour w =
     (if hasCreateChild res then
        (let (creatingNode, w1) = runCallbacks this (fst behaviour) None w;
             (r, w2) = (case snd behaviour of
                          Inl e \<Rightarrow> (Inl e, w1)
                        | Inr newTreeItem \<Rightarrow>
                            (let (newNode, w') = createNewNode this newTreeItem w1
                             in (Inr newNode, addNodeToCache localeCompare this newNode w')))
         in (r, case creatingNode of
                  None \<Rightarrow> w2
                | Some cn \<Rightarrow>
                    (let f = nodeFields this w2
                     in refresh (Some this) False
                          (setFields this
                             (f\<lparr>creatingNodes :=
                                  splice_remove (indexOf (creatingNodes f) cn) (creatingNodes f)\<rparr>)
                             w2))))
      else (Inl (NotImplementedError ''createChild''), w))"

text \<open>A tree item whose \<open>compareChildren\<close> keeps the children in descending order of their
  labels, \<open>(n1, n2) => n2.treeItem.label.localeCompare(n1.treeItem.label)\<close>, and one that
  can create children.\<close>

definition descendingResource :: "collation \<Rightarrow> resource" where
  "descendingResource localeCompare =
     \<lparr>compareChildren = Some (\<lambda>n1 n2. localeCompare (label (treeItem n2)) (label (treeItem n1))),
      pickTreeItem = None, hasCreateChild = True, childTypeLabel = None\<rparr>"

definition creatingResource :: resource where
  "creatingResource =
     \<lparr>compareChildren = None, pickTreeItem = None, hasCreateChild = True, childTypeLabel = None\<rparr>"

text \<open>The example parent after one page, \<open>a\<close> and \<open>c\<close>, was loaded.\<close>

definition loadedTree :: treeState where
  "loadedTree =
     snd (loadMoreChildren codeUnitCompare exampleRoot creatingResource
            (\<lambda>clear. Inr [exampleItem ''a'', exampleItem ''c'']) exampleTree)"

text \<open>The same parent with the comparator for descending labels, after the page \<open>a\<close>, \<open>b\<close>.\<close>

definition descendingTree :: "collation \<Rightarrow> treeState" where
  "descendingTree localeCompare =
     snd (loadMoreChildren localeCompare exampleRoot (descendingResource localeCompare)
            (\<lambda>clear. Inr [exampleItem ''a'', exampleItem ''b'']) exampleTree)"

subsection \<open>Sequences of cache operations\<close>

text \<open>
  The operations that change a parent's cache, each with what the outside world brings to
  it: the page of a \<open>loadMoreChildren\<close>, the course of a \<open>createChild\<close>, the node handed
  to \<open>addNodeToCache\<close> or to \<open>removeNodeFromCache\<close>.
\<close>

datatype cacheOp =
    LoadMore "bool \<Rightarrow> error + azureTreeItem list"
  | CreateChild creation
  | AddNode azureNode
  | RemoveNode azureNode

fun applyOp :: "collation \<Rightarrow> azureNode \<Rightarrow> resource \<Rightarrow> cacheOp \<Rightarrow> treeState \<Rightarrow> treeState" where
  "applyOp localeCompare this res (LoadMore page) w =
     snd (loadMoreChildren localeCompare this res page w)"
| "applyOp localeCompare this res (CreateChild behaviour) w =
     snd (createChild localeCompare this res behaviour w)"
| "applyOp localeCompare this res (AddNode node) w = addNodeToCache localeCompare this node w"
| "applyOp localeCompare this res (RemoveNode node) w = removeNodeFromCache this node w"

fun applyOps :: "collation \<Rightarrow> azureNode \<Rightarrow> resource \<Rightarrow> cacheOp list \<Rightarrow> treeState \<Rightarrow> treeState" where
  "applyOps localeCompare this res [] w = w"
| "applyOps localeCompare this res (op # ops) w =
     applyOps localeCompare this res ops (applyOp localeCompare this res op w)"

subsection \<open>Picking a node\<close>

text \<open>What selecting an entry of the quick pick does (its \<open>data\<close> function): hand out a
  cached child, create a new child, or load one more page.\<close>

datatype pickData = PickNode azureNode | PickCreate | PickLoadMore

record quickPick =
  qpLabel :: string
  qpDescription :: string
  qpData :: pickData

text \<open>
  Modelled from the spec: the class \<open>LoadMoreTreeItem\<close> is not among the sources; the spec
  describes the synthetic "load more" entry it stands for.  Its constructor takes the id of
  the command that loads more.
\<close>

definition loadMoreLabel :: string where
  "loadMoreLabel = ''Load More...''"

text \<open>Modelled from the spec: the tree item of that entry, \<open>new LoadMoreTreeItem(cmd)\<close>.\<close>

definition loadMoreTreeItem :: "string \<Rightarrow> azureTreeItem" where
  "loadMoreTreeItem cmd =
     \<lparr>label = loadMoreLabel, itemId = None, contextValue = ''azureLoadMore'',
      commandId = Some cmd, isParentItem = False\<rparr>"

text \<open>JavaScript's truthiness of an optional string: defined and not empty.\<close>

definition truthy :: "string option \<Rightarrow> bool" where
  "truthy s = (case s of None \<Rightarrow> False | Some v \<Rightarrow> v \<noteq> [])"

text \<open>
  What the outside world answers during one \<open>pickChildNode\<close> call: the tree item's page
  if the cache has to be loaded, its \<open>hasMoreChildren()\<close>, the entry of the quick pick the
  user chooses (by position, \<open>None\<close> when the picker is dismissed), the page a chosen
  "load more" fetches, and how the tree item's \<open>createChild\<close> goes if "create new" is
  chosen.
\<close>

record pickInput =
  firstPage :: "bool \<Rightarrow> error + azureTreeItem list"
  hasMoreChildren :: bool
  choice :: "nat option"
  morePage :: "bool \<Rightarrow> error + azureTreeItem list"
  created :: creation

text \<open>
  Modelled from the spec: \<open>IAzureUserInput.showQuickPick\<close> is not among the sources.  It
  returns the entry the user chose; dismissing the picker is the cancellation signal
  \<open>UserCancelledError\<close>.
\<close>

definition showQuickPick :: "'a list \<Rightarrow> nat option \<Rightarrow> error + 'a" where
  "showQuickPick picks c =
     (case c of
        None \<Rightarrow> Inl UserCancelledError
      | Some i \<Rightarrow> if i < length picks then Inr (picks ! i) else Inl UserCancelledError)"

text \<open>
  \<open>getQuickPicks\<close>.  \<open>incl\<close> is \<open>AzureNode.includeInNodePicker\<close>, a method of a class that
  is not among the sources.
\<close>

definition getQuickPicks ::
  "collation \<Rightarrow> azureNode \<Rightarrow> resource \<Rightarrow> (azureNode \<Rightarrow> string list \<Rightarrow> bool) \<Rightarrow> pickInput \<Rightarrow> string list
     \<Rightarrow> treeState \<Rightarrow> (error + quickPick list) \<times> treeState" where
  "getQuickPicks localeCompare this res incl inp expectedContextValues w =
     (case getCachedChildren localeCompare this res (firstPage inp) w of
        (Inl e, w1) \<Rightarrow> (Inl e, w1)
      | (Inr nodes, w1) \<Rightarrow>
          (let nodes1 = filter (\<lambda>node. incl node expectedContextValues) nodes;
               picks = map (\<lambda>n. \<lparr>qpLabel = label (treeItem n), qpDescription = [],
                                   qpData = PickNode n\<rparr>) nodes1;
               picks1 = (if hasCreateChild res \<and> truthy (childTypeLabel res)
                         then \<lparr>qpLabel = ''$(plus) Create New '' @ the (childTypeLabel res),
                               qpDescription = [], qpData = PickCreate\<rparr> # picks
                         else picks);
               picks2 = (if hasMoreChildren inp
                         then picks1 @ [\<lparr>qpLabel = loadMoreLabel, qpDescription = [],
                                         qpData = PickLoadMore\<rparr>]
                         else picks1)
           in (Inr picks2, w1)))"

text \<open>The \<open>for (const val of expectedContextValues)\<close> loop of \<open>pickChildNode\<close>.\<close>

fun findPicked :: "(string \<Rightarrow> azureTreeItem option) \<Rightarrow> azureNode list \<Rightarrow> string list \<Rightarrow> azureNode option" where
  "findPicked pick children [] = None"
| "findPicked pick children (val # vals) =
     (case pick val of
        None \<Rightarrow> findPicked pick children vals
      | Some pickedItem \<Rightarrow>
          (case find (\<lambda>n. (truthy (itemId pickedItem) \<and> itemId (treeItem n) = itemId pickedItem)
                           \<or> label (treeItem n) = label pickedItem) children of
             Some node \<Rightarrow> Some node
           | None \<Rightarrow> findPicked pick children vals))"

definition pickChildNode ::
  "collation \<Rightarrow> azureNode \<Rightarrow> resource \<Rightarrow> (azureNode \<Rightarrow> string list \<Rightarrow> bool) \<Rightarrow> pickInput \<Rightarrow> string list
     \<Rightarrow> treeState \<Rightarrow> (error + azureNode) \<times> treeState" where
  "pickChildNode localeCompare this res incl inp expectedContextValues w =
     (let (found, w1) =
            (case pickTreeItem res of
               None \<Rightarrow> (Inr None, w)
             | Some pick \<Rightarrow>
                 (case getCachedChildren localeCompare this res (firstPage inp) w of
                    (Inl e, w') \<Rightarrow> (Inl e, w')
                  | (Inr children, w') \<Rightarrow>
                      (Inr (findPicked pick children expectedContextValues), w')))
      in case found of
           Inl e \<Rightarrow> (Inl e, w1)
         | Inr (Some node) \<Rightarrow> (Inr node, w1)
         | Inr None \<Rightarrow>
             (case getQuickPicks localeCompare this res incl inp expectedContextValues w1 of
                (Inl e, w2) \<Rightarrow> (Inl e, w2)
              | (Inr picks, w2) \<Rightarrow>
                  (case showQuickPick picks (choice inp) of
                     Inl e \<Rightarrow> (Inl e, w2)
                   | Inr p \<Rightarrow>
                       (case qpData p of
                          PickNode n \<Rightarrow> (Inr n, w2)
                        | PickCreate \<Rightarrow> createChild localeCompare this res (created inp) w2
                        | PickLoadMore \<Rightarrow>
                            (case loadMoreChildren localeCompare this res (morePage inp) w2 of
                               (Inl e, w3) \<Rightarrow> (Inl e, w3)
                             | (Inr u, w3) \<Rightarrow> (Inr this, refresh (Some this) False w3))))))"

text \<open>\<open>expectedContextValues: string | string[]\<close>, and the array \<open>showNodePicker\<close> makes
  of it.\<close>

datatype contextValues = OneValue string | ManyValues "string list"

definition asArray :: "contextValues \<Rightarrow> string list" where
  "asArray v = (case v of OneValue s \<Rightarrow> [s] | ManyValues ss \<Rightarrow> ss)"

definition noResourcesError :: error where
  "noResourcesError = Error ''No matching resources found.''"

text \<open>
  The \<open>while\<close> loop of \<open>showNodePicker\<close>.  \<open>methods\<close> gives the methods of a node's tree
  item.  Each round of the loop awaits one \<open>pickChildNode\<close>, that is the user and the
  network; \<open>inputs\<close> holds what they answer, round by round, and the result is \<open>None\<close>
  when the answers run out before the loop ends: the picker is still open.
\<close>

fun showNodePicker_loop ::
  "collation \<Rightarrow> (azureTreeItem \<Rightarrow> resource) \<Rightarrow> (azureNode \<Rightarrow> string list \<Rightarrow> bool) \<Rightarrow> string list \<Rightarrow> azureNode
     \<Rightarrow> pickInput list \<Rightarrow> treeState \<Rightarrow> ((error + azureNode) \<times> treeState) option" where
  "showNodePicker_loop localeCompare methods incl expected node [] w =
     (if list_ex (\<lambda>val. contextValue (treeItem node) = val) expected then Some (Inr node, w)
      else if isParentNode node then None
      else Some (Inl noResourcesError, w))"
| "showNodePicker_loop localeCompare methods incl expected node (inp # rest) w =
     (if list_ex (\<lambda>val. contextValue (treeItem node) = val) expected then Some (Inr node, w)
      else if isParentNode node then
        (case pickChildNode localeCompare node (methods (treeItem node)) incl inp expected w of
           (Inl e, w1) \<Rightarrow> Some (Inl e, w1)
         | (Inr picked, w1) \<Rightarrow> showNodePicker_loop localeCompare methods incl expected picked rest w1)
      else Some (Inl noResourcesError, w))"

text \<open>The nodes the loop examines, in order.\<close>

fun showNodePicker_walk ::
  "collation \<Rightarrow> (azureTreeItem \<Rightarrow> resource) \<Rightarrow> (azureNode \<Rightarrow> string list \<Rightarrow> bool) \<Rightarrow> string list \<Rightarrow> azureNode
     \<Rightarrow> pickInput list \<Rightarrow> treeState \<Rightarrow> azureNode list" where
  "showNodePicker_walk localeCompare methods incl expected node [] w = [node]"
| "showNodePicker_walk localeCompare methods incl expected node (inp # rest) w =
     (if list_ex (\<lambda>val. contextValue (treeItem node) = val) expected then [node]
      else if isParentNode node then
        (case pickChildNode localeCompare node (methods (treeItem node)) incl inp expected w of
           (Inl e, w1) \<Rightarrow> [node]
         | (Inr picked, w1) \<Rightarrow> node # showNodePicker_walk localeCompare methods incl expected picked rest w1)
      else [node])"

text \<open>
  \<open>showNodePicker\<close>.  Without a starting node the user is first asked for a root node by
  \<open>promptForRootNode\<close>; \<open>rootPrompt\<close> is how that goes: a node, an error, or \<open>None\<close> when
  the user never answers.
\<close>

definition showNodePicker ::
  "collation \<Rightarrow> (azureTreeItem \<Rightarrow> resource) \<Rightarrow> (azureNode \<Rightarrow> string list \<Rightarrow> bool) \<Rightarrow> contextValues
     \<Rightarrow> azureNode option \<Rightarrow> (error + azureNode) option \<Rightarrow> pickInput list \<Rightarrow> treeState
     \<Rightarrow> ((error + azureNode) \<times> treeState) option" where
  "showNodePicker localeCompare methods incl expectedContextValues startingNode rootPrompt inputs w =
     (let expected = asArray expectedContextValues
      in case (case startingNode of Some n \<Rightarrow> Some (Inr n) | None \<Rightarrow> rootPrompt) of
           None \<Rightarrow> None
         | Some (Inl e) \<Rightarrow> Some (Inl e, w)
         | Some (Inr node) \<Rightarrow> showNodePicker_loop localeCompare methods incl expected node inputs w)"

text \<open>Answers of the outside world for the examples: nothing to load, nothing more, the
  picker dismissed; and the same with more pages to load and the first entry chosen.\<close>

definition dismissInput :: pickInput where
  "dismissInput =
     \<lparr>firstPage = (\<lambda>clear. Inr []), hasMoreChildren = False, choice = None,
      morePage = (\<lambda>clear. Inr []), created = ([], Inl UserCancelledError)\<rparr>"

definition loadMoreInput :: pickInput where
  "loadMoreInput = dismissInput\<lparr>hasMoreChildren := True, choice := Some 0\<rparr>"

definition pickFirstInput :: pickInput where
  "pickFirstInput = dismissInput\<lparr>choice := Some 0\<rparr>"

section \<open>The tree data provider: \<open>getChildren\<close>\<close>

text \<open>The account extension as the provider sees it: the login status and the
  subscriptions the user filtered for, each with its optional id and display name.\<close>

datatype loginStatus = Initializing | LoggingIn | LoggedIn | LoggedOut

record subscriptionInfo =
  subscriptionId :: "string option"
  displayName :: "string option"

record azureAccount =
  status :: loginStatus
  filters :: "subscriptionInfo list"

text \<open>The provider: the objects of the tree, its subscription nodes, the root nodes it was
  constructed with, and the id of its "load more" command.\<close>

record provider =
  tree :: treeState
  subscriptionNodes :: "azureNode list"
  customRootNodes :: "azureNode list"
  loadMoreCommandId :: string

text \<open>The action context a callback runs under (\<open>IActionContext\<close>): the two flags, the
  telemetry properties in the order they were set, and the \<open>childCount\<close> measurement.\<close>

record actionContext =
  suppressErrorDisplay :: bool
  rethrowError :: bool
  properties :: "(string \<times> string) list"
  childCount :: "nat option"

definition newActionContext :: actionContext where
  "newActionContext =
     \<lparr>suppressErrorDisplay = False, rethrowError = False, properties = [], childCount = None\<rparr>"

text \<open>
  Modelled from the spec: \<open>callWithTelemetryAndErrorHandling\<close> is not among the sources.
  The spec counts the telemetry and error-reporting layer among the external
  collaborators, of which the core only consumes the result and error shapes, and says no
  more about it.  Those shapes are what the model keeps: the wrapper runs the callback
  under a fresh action context; the value the callback returns is the value the wrapper
  returns (\<open>getChildren\<close> returns it as its list of nodes); and when the callback throws,
  the wrapper either throws an error on to its caller or takes the error as handled and
  returns \<open>undefined\<close>.  Which of the two it does, for which error and under which flags
  of the context, is not fixed here: it is the parameter \<open>policy\<close>, answering the error
  to throw on, or \<open>None\<close> for an error taken as handled.
\<close>

type_synonym errorPolicy = "actionContext \<Rightarrow> error \<Rightarrow> error option"

definition callWithTelemetryAndErrorHandling ::
  "errorPolicy \<Rightarrow> (actionContext \<Rightarrow> (error + 'a) \<times> actionContext \<times> 's) \<Rightarrow> (error + 'a option) \<times> 's" where
  "callWithTelemetryAndErrorHandling policy callback =
     (case callback newActionContext of
        (Inr v, ctx, s) \<Rightarrow> (Inr (Some v), s)
      | (Inl e, ctx, s) \<Rightarrow> ((case policy ctx e of Some e' \<Rightarrow> Inl e' | None \<Rightarrow> Inr None), s))"

text \<open>
  Two policies to run the examples with.  The first throws every error on when the
  callback has set \<open>rethrowError\<close> and takes it as handled otherwise.  The second does the
  same except for user cancellation, which the spec lists as a distinct signal that is
  never a failure: it takes \<open>UserCancelledError\<close> as handled whatever the callback asked
  for.
\<close>

definition rethrowOnRequest :: errorPolicy where
  "rethrowOnRequest ctx e = (if rethrowError ctx then Some e else None)"

definition cancellationHandled :: errorPolicy where
  "cancellationHandled ctx e =
     (if e = UserCancelledError then None else if rethrowError ctx then Some e else None)"

definition signInLabel :: string where "signInLabel = ''Sign in to Azure...''"
definition createAccountLabel :: string where "createAccountLabel = ''Create a Free Azure Account...''"
definition signInCommandId :: string where "signInCommandId = ''azure-account.login''"
definition createAccountCommandId :: string where "createAccountCommandId = ''azure-account.createAccount''"

definition commandItem :: "string \<Rightarrow> string \<Rightarrow> azureTreeItem" where
  "commandItem l cmd =
     \<lparr>label = l, itemId = Some cmd, contextValue = ''azureCommandNode'', commandId = Some cmd,
      isParentItem = False\<rparr>"

text \<open>
  Modelled from the spec: the class \<open>SubscriptionNode\<close> is not among the sources; the spec
  describes it as a parent node bound to one subscription identifier and display name.
\<close>

definition subscriptionContextValue :: string where
  "subscriptionContextValue = ''azureextensionui.azureSubscription''"

text \<open>Modelled from the spec: \<open>new SubscriptionNode(...)\<close>, a fresh parent node at the root
  labelled with the display name.\<close>

definition newSubscriptionNode :: "string \<Rightarrow> string \<Rightarrow> treeState \<Rightarrow> azureNode \<times> treeState" where
  "newSubscriptionNode sid name w =
     (let r = nextRef w
      in (\<lparr>ref = r,
           treeItem = \<lparr>label = name, itemId = Some sid, contextValue = subscriptionContextValue,
                       commandId = None, isParentItem = True\<rparr>,
           parent = None, isParentNode = True\<rparr>,
          w\<lparr>heap := (heap w)(r := newParentFields), nextRef := r + 1\<rparr>))"

text \<open>The \<open>filters.map(...)\<close> of \<open>getRootNodes\<close>: a subscription node per filter, and
  \<open>ArgumentError\<close> at the first filter without an id or a display name.\<close>

fun subscriptionNodesOf :: "subscriptionInfo list \<Rightarrow> treeState \<Rightarrow> (error + azureNode list) \<times> treeState" where
  "subscriptionNodesOf [] w = (Inr [], w)"
| "subscriptionNodesOf (f # fs) w =
     (case (subscriptionId f, displayName f) of
        (Some sid, Some name) \<Rightarrow>
          (let (n, w1) = newSubscriptionNode sid name w
           in case subscriptionNodesOf fs w1 of
                (Inl e, w2) \<Rightarrow> (Inl e, w2)
              | (Inr ns, w2) \<Rightarrow> (Inr (n # ns), w2))
      | _ \<Rightarrow> (Inl ArgumentError, w))"

definition getRootNodes ::
  "azureAccount \<Rightarrow> actionContext \<Rightarrow> provider \<Rightarrow> (error + azureNode list) \<times> actionContext \<times> provider" where
  "getRootNodes account actionContext p =
     (let ctx = actionContext\<lparr>properties := properties actionContext @
                  [(''isActivationEvent'', ''true''), (''contextValue'', ''root''),
                   (''accountStatus'',
                      (case status account of
                         Initializing \<Rightarrow> ''Initializing'' | LoggingIn \<Rightarrow> ''LoggingIn''
                       | LoggedIn \<Rightarrow> ''LoggedIn'' | LoggedOut \<Rightarrow> ''LoggedOut''))]\<rparr>;
          p0 = p\<lparr>subscriptionNodes := []\<rparr>
      in if status account = Initializing \<or> status account = LoggingIn then
           (let (n, w1) = newAzureNode None (commandItem ''Loading...'' signInCommandId) (tree p0)
            in (Inr ([n] @ customRootNodes p0), ctx, p0\<lparr>tree := w1\<rparr>))
         else if status account = LoggedOut then
           (let (n1, w1) = newAzureNode None (commandItem signInLabel signInCommandId) (tree p0);
                (n2, w2) = newAzureNode None (commandItem createAccountLabel createAccountCommandId) w1
            in (Inr ([n1, n2] @ customRootNodes p0), ctx, p0\<lparr>tree := w2\<rparr>))
         else if length (filters account) = 0 then
           (let (n, w1) = newAzureNode None
                            (commandItem ''No subscriptions found. Edit filters...''
                               ''azure-account.selectSubscriptions'') (tree p0)
            in (Inr ([n] @ customRootNodes p0), ctx, p0\<lparr>tree := w1\<rparr>))
         else
           (case subscriptionNodesOf (filters account) (tree p0) of
              (Inl e, w1) \<Rightarrow> (Inl e, ctx, p0\<lparr>tree := w1\<rparr>)
            | (Inr ns, w1) \<Rightarrow>
                (Inr (ns @ customRootNodes p0), ctx, p0\<lparr>tree := w1, subscriptionNodes := ns\<rparr>)))"

text \<open>
  The callback of \<open>getChildren\<close>: the computation of the children.  For a parent node,
  \<open>page\<close> is the tree item's answer if the cache has to be loaded and \<open>hasMore\<close> its
  \<open>hasMoreChildren()\<close>.
\<close>

definition computeChildren ::
  "collation \<Rightarrow> (azureTreeItem \<Rightarrow> resource) \<Rightarrow> azureAccount \<Rightarrow> azureNode option
     \<Rightarrow> (bool \<Rightarrow> error + azureTreeItem list) \<Rightarrow> bool \<Rightarrow> provider \<Rightarrow> actionContext
     \<Rightarrow> (error + azureNode list) \<times> actionContext \<times> provider" where
  "computeChildren localeCompare methods account node page hasMore p actionContext =
     (let ctx = actionContext\<lparr>suppressErrorDisplay := True, rethrowError := True\<rparr>
      in case node of
           Some n \<Rightarrow>
             (let ctx1 = ctx\<lparr>properties := properties ctx @
                            [(''contextValue'', contextValue (treeItem n))]\<rparr>
              in case getCachedChildren localeCompare n (methods (treeItem n)) page (tree p) of
                   (Inl e, w1) \<Rightarrow> (Inl e, ctx1, p\<lparr>tree := w1\<rparr>)
                 | (Inr cached, w1) \<Rightarrow>
                     (let ctx2 = ctx1\<lparr>properties := properties ctx1 @
                                   [(''hasMoreChildren'', if hasMore then ''true'' else ''false'')]\<rparr>;
                          result = creatingNodes (nodeFields n w1) @ cached;
                          (result1, w2) =
                             (if hasMore
                              then (let (m, w') = newAzureNode (Some n)
                                                    (loadMoreTreeItem (loadMoreCommandId p)) w1
                                    in (result @ [m], w'))
                              else (result, w1))
                      in (Inr result1, ctx2\<lparr>childCount := Some (length result1)\<rparr>,
                          p\<lparr>tree := w2\<rparr>)))
         | None \<Rightarrow>
             (case getRootNodes account ctx p of
                (Inl e, ctx1, p1) \<Rightarrow> (Inl e, ctx1, p1)
              | (Inr result, ctx1, p1) \<Rightarrow>
                  (Inr result, ctx1\<lparr>childCount := Some (length result)\<rparr>, p1)))"

text \<open>The tree item of the node the \<open>catch\<close> block of \<open>getChildren\<close> makes; \<open>msg\<close> is
  \<open>parseError(error).message\<close>.\<close>

definition errorTreeItem :: "string \<Rightarrow> azureTreeItem" where
  "errorTreeItem msg =
     \<lparr>label = ''Error: '' @ msg, itemId = None, contextValue = ''azureextensionui.error'',
      commandId = None, isParentItem = False\<rparr>"

text \<open>
  \<open>AzureTreeDataProvider.getChildren\<close>.  \<open>policy\<close> is what the wrapper does with an
  error of the callback, and \<open>parseErrorMessage\<close> is the message that \<open>parseError\<close>, which
  is not among the sources, finds in an error.  The result is the list returned (\<open>None\<close>
  for \<open>undefined\<close>), or the error that escapes.
\<close>

definition getChildren ::
  "errorPolicy \<Rightarrow> (error \<Rightarrow> string) \<Rightarrow> collation \<Rightarrow> (azureTreeItem \<Rightarrow> resource) \<Rightarrow> azureAccount \<Rightarrow> azureNode option
     \<Rightarrow> (bool \<Rightarrow> error + azureTreeItem list) \<Rightarrow> bool \<Rightarrow> provider
     \<Rightarrow> (error + azureNode list option) \<times> provider" where
  "getChildren policy parseErrorMessage localeCompare methods account node page hasMore p =
     (case callWithTelemetryAndErrorHandling policy
             (computeChildren localeCompare methods account node page hasMore p) of
        (Inr r, p1) \<Rightarrow> (Inr r, p1)
      | (Inl error, p1) \<Rightarrow>
          (let (n, w1) = newAzureNode node (errorTreeItem (parseErrorMessage error)) (tree p1)
           in (Inr (Some [n]), p1\<lparr>tree := w1\<rparr>)))"

text \<open>A provider over the example tree, an account whose one filter lacks its display
  name, and a way to read the message of an error.\<close>

definition exampleProvider :: provider where
  "exampleProvider =
     \<lparr>tree = exampleTree, subscriptionNodes = [], customRootNodes = [],
      loadMoreCommandId = ''example.loadMore''\<rparr>"

definition brokenAccount :: azureAccount where
  "brokenAccount =
     \<lparr>status = LoggedIn, filters = [\<lparr>subscriptionId = Some ''s1'', displayName = None\<rparr>]\<rparr>"

fun exampleMessage :: "error \<Rightarrow> string" where
  "exampleMessage (Error msg) = msg"
| "exampleMessage UserCancelledError = ''Operation cancelled.''"
| "exampleMessage (NotImplementedError m) = m @ '' is not implemented.''"
| "exampleMessage ArgumentError = ''Invalid argument.''"
| "exampleMessage (ServiceError msg body) = msg"

section \<open>The site wrapper: waiting for a deployment\<close>

text \<open>
  A \<open>DeployResult\<close> of the Kudu client, with the four members the loop reads; \<open>isTemp\<close>
  and \<open>complete\<close> count as false when they are \<open>undefined\<close>.
\<close>

record deployResult =
  deployId :: "string option"
  isTemp :: bool
  complete :: bool
  progress :: "string option"

text \<open>
  What \<open>waitForDeploymentToComplete\<close> does to the outside world: the ids it passes to
  \<open>kuduClient.deployment.getResult\<close>, the delays it passes to \<open>setTimeout\<close>, and the
  messages it passes to \<open>this.log\<close>, each oldest first.
\<close>

record pollTrace =
  queried :: "string list"
  waited :: "nat list"
  logged :: "string list"

text \<open>\<open>pollingInterval: number = 5000\<close>.\<close>

definition pollingInterval :: "nat option \<Rightarrow> nat" where
  "pollingInterval given = (case given of None \<Rightarrow> 5000 | Some ms \<Rightarrow> ms)"

text \<open>
  The \<open>while (!deployment.complete)\<close> loop.  \<open>answers\<close> are the answers of the Kudu service
  to the queries still to come, a result or an error thrown; when they run out the loop
  is left waiting for the answer to the query it has just issued, and the outcome is
  \<open>None\<close>.
\<close>

fun poll_loop ::
  "nat \<Rightarrow> string \<Rightarrow> deployResult \<Rightarrow> (error + deployResult) list \<Rightarrow> pollTrace
     \<Rightarrow> (error + deployResult) option \<times> pollTrace" where
  "poll_loop interval deploymentId deployment [] s =
     (if \<not> complete deployment then
        (let deploymentId1 = (if \<not> isTemp deployment \<and> truthy (deployId deployment)
                              then the (deployId deployment) else deploymentId);
             s1 = (if truthy (progress deployment)
                   then s\<lparr>logged := logged s @ [the (progress deployment)]\<rparr> else s);
             s2 = s1\<lparr>waited := waited s1 @ [interval]\<rparr>;
             s3 = s2\<lparr>queried := queried s2 @ [deploymentId1]\<rparr>
         in (None, s3))
      else (Some (Inr deployment), s))"
| "poll_loop interval deploymentId deployment (a # rest) s =
     (if \<not> complete deployment then
        (let deploymentId1 = (if \<not> isTemp deployment \<and> truthy (deployId deployment)
                              then the (deployId deployment) else deploymentId);
             s1 = (if truthy (progress deployment)
                   then s\<lparr>logged := logged s @ [the (progress deployment)]\<rparr> else s);
             s2 = s1\<lparr>waited := waited s1 @ [interval]\<rparr>;
             s3 = s2\<lparr>queried := queried s2 @ [deploymentId1]\<rparr>
         in case a of
              Inl e \<Rightarrow> (Some (Inl e), s3)
            | Inr d \<Rightarrow> poll_loop interval deploymentId1 d rest s3)
      else (Some (Inr deployment), s))"

definition waitForDeploymentToComplete ::
  "nat option \<Rightarrow> (error + deployResult) list \<Rightarrow> (error + deployResult) option \<times> pollTrace" where
  "waitForDeploymentToComplete given answers =
     (let deploymentId = ''latest'';
          s0 = \<lparr>queried = [deploymentId], waited = [], logged = []\<rparr>
      in case answers of
           [] \<Rightarrow> (None, s0)
         | Inl e # rest \<Rightarrow> (Some (Inl e), s0)
         | Inr deployment # rest \<Rightarrow>
             poll_loop (pollingInterval given) deploymentId deployment rest s0)"

text \<open>
  The claim's reading of a run, for comparison with the code.  The results the loop goes
  round on are the leading answers that are results and are not complete.  A result names
  a permanent id when it is not temporary and has an id; the id to query under, after
  some results, is the one the latest of them named, and \<open>latest\<close> when none did.
\<close>

fun incomplete :: "(error + deployResult) list \<Rightarrow> deployResult list" where
  "incomplete [] = []"
| "incomplete (Inl e # rest) = []"
| "incomplete (Inr d # rest) = (if complete d then [] else d # incomplete rest)"

definition permanent :: "deployResult \<Rightarrow> bool" where
  "permanent d \<longleftrightarrow> \<not> isTemp d \<and> truthy (deployId d)"

definition idAfter :: "string \<Rightarrow> deployResult list \<Rightarrow> string" where
  "idAfter start ds =
     (case filter permanent ds of [] \<Rightarrow> start | p # ps \<Rightarrow> the (deployId (last (p # ps))))"

definition progressTexts :: "deployResult list \<Rightarrow> string list" where
  "progressTexts ds = map (\<lambda>d. the (progress d)) (filter (\<lambda>d. truthy (progress d)) ds)"

text \<open>The answer that ends the run, if there is one: the first that is an error or a
  complete result.\<close>

definition endingAnswer :: "(error + deployResult) list \<Rightarrow> (error + deployResult) option" where
  "endingAnswer answers =
     (case drop (length (incomplete answers)) answers of [] \<Rightarrow> None | a # rest \<Rightarrow> Some a)"

text \<open>Results for the examples.\<close>

definition tempResult :: deployResult where
  "tempResult = \<lparr>deployId = Some ''temp-1'', isTemp = True, complete = False,
                 progress = Some ''Preparing''\<rparr>"

definition buildingResult :: deployResult where
  "buildingResult = \<lparr>deployId = Some ''abc123'', isTemp = False, complete = False,
                     progress = Some ''Building''\<rparr>"

definition doneResult :: deployResult where
  "doneResult = \<lparr>deployId = Some ''abc123'', isTemp = False, complete = True,
                 progress = Some ''Done''\<rparr>"

section \<open>The deployment workflows and their zip file\<close>

text \<open>The buttons of a warning message (\<open>DialogResponses\<close>: yes, no, cancel and
  \<open>deleteResponse\<close>); a dismissed message answers \<open>undefined\<close>, here \<open>None\<close>.\<close>

datatype dialogResponse = Yes | No | Cancel | DeleteResponse

text \<open>
  What a deployment can touch: the files and the directories that exist, the zip files
  \<open>zipDirectory\<close> made and the paths handed to \<open>deleteFile\<close> (oldest first), the lines
  logged to the output channel (the messages, without the time and the name of the site
  that \<open>log\<close> puts before them), the zip files pushed to Kudu, and the application
  settings of the site.
\<close>

record deployWorld =
  files :: "string set"
  directories :: "string set"
  zipsCreated :: "string list"
  deleteCalls :: "string list"
  outputLines :: "string list"
  zipsPushed :: "string list"
  siteSettings :: "string \<rightharpoonup> string"

text \<open>
  Modelled from the spec: the module \<open>FileUtilities\<close> is not among the sources.  The spec
  has the workflow resolve its input to a zip file, zipping it if it is a directory, and
  delete any zip it created.  \<open>getFileExtension\<close> is what follows the last dot of the
  path.
\<close>

definition getFileExtension :: "string \<Rightarrow> string" where
  "getFileExtension fsPath = rev (takeWhile (\<lambda>c. c \<noteq> CHR ''.'') (rev fsPath))"

text \<open>Modelled from the spec: \<open>FileUtilities.isDirectory\<close> tells whether the path is a
  directory.\<close>

definition isDirectory :: "string \<Rightarrow> deployWorld \<Rightarrow> bool" where
  "isDirectory fsPath w \<longleftrightarrow> fsPath \<in> directories w"

text \<open>Modelled from the spec: \<open>FileUtilities.zipDirectory\<close> makes a new zip file, at a path
  of its choosing, or fails and makes none; \<open>made\<close> is which.\<close>

definition zipDirectory :: "(error + string) \<Rightarrow> deployWorld \<Rightarrow> (error + string) \<times> deployWorld" where
  "zipDirectory made w =
     (case made of
        Inl e \<Rightarrow> (Inl e, w)
      | Inr zipFilePath \<Rightarrow>
          (Inr zipFilePath,
           w\<lparr>files := insert zipFilePath (files w), zipsCreated := zipsCreated w @ [zipFilePath]\<rparr>))"

text \<open>Modelled from the spec: \<open>FileUtilities.deleteFile\<close> removes the file.\<close>

definition deleteFile :: "string \<Rightarrow> deployWorld \<Rightarrow> deployWorld" where
  "deleteFile fsPath w = w\<lparr>files := files w - {fsPath}, deleteCalls := deleteCalls w @ [fsPath]\<rparr>"

text \<open>\<open>outputChannel.appendLine\<close>.\<close>

definition appendLine :: "string \<Rightarrow> deployWorld \<Rightarrow> deployWorld" where
  "appendLine line w = w\<lparr>outputLines := outputLines w @ [line]\<rparr>"

text \<open>
  The part both workflows share word for word: the choice of the zip file.  The result is
  the path and the flag \<open>createdZip\<close>.  The flag is set before \<open>zipDirectory\<close> is awaited,
  and an error of \<open>zipDirectory\<close> leaves the function before its \<open>try\<close> block.
\<close>

definition resolveZipFile ::
  "string \<Rightarrow> (error + string) \<Rightarrow> deployWorld \<Rightarrow> (error + string \<times> bool) \<times> deployWorld" where
  "resolveZipFile fsPath made w =
     (if getFileExtension fsPath = ''zip'' then (Inr (fsPath, False), w)
      else if isDirectory fsPath w then
        (case zipDirectory made (appendLine ''Creating zip package...'' w) of
           (Inl e, w1) \<Rightarrow> (Inl e, w1)
         | (Inr zipFilePath, w1) \<Rightarrow> (Inr (zipFilePath, True), w1))
      else (Inl (Error ''Path specified is not a folder or a zip file''), w))"

text \<open>The \<open>catch\<close> block both share: an error that carries a response body is replaced by
  an \<open>Error\<close> of that body, any other is thrown again.\<close>

definition responseBodyError :: "error \<Rightarrow> error" where
  "responseBodyError e =
     (case e of
        ServiceError msg body \<Rightarrow> if truthy body then Error (the body) else e
      | _ \<Rightarrow> e)"

text \<open>The \<open>finally\<close> block both share.\<close>

definition cleanUpZip :: "string \<times> bool \<Rightarrow> deployWorld \<Rightarrow> deployWorld" where
  "cleanUpZip z w = (if snd z then deleteFile (fst z) w else w)"

text \<open>
  What the user and the services answer during one \<open>deployZip\<close>: the answer to the
  confirmation, the publishing credentials (user name and password), the zip
  \<open>zipDirectory\<close> makes, the outcome of the push, and the answers to the status queries.
\<close>

record deployInput =
  confirmation :: "dialogResponse option"
  credentials :: "error + (string option \<times> string option)"
  zipMade :: "error + string"
  pushError :: "error option"
  statusAnswers :: "(error + deployResult) list"

text \<open>\<open>getKuduClient\<close>: the credentials must both be there.\<close>

definition getKuduClient :: "error + (string option \<times> string option) \<Rightarrow> error + unit" where
  "getKuduClient user =
     (case user of
        Inl e \<Rightarrow> Inl e
      | Inr (publishingUserName, publishingPassword) \<Rightarrow>
          if \<not> truthy publishingUserName \<or> \<not> truthy publishingPassword then Inl ArgumentError
          else Inr ())"

text \<open>
  \<open>SiteWrapper.deployZip\<close>.  The outcome is \<open>None\<close> while the status poll has not ended:
  the call has not returned, and its \<open>finally\<close> block has not run.
\<close>

definition deployZip ::
  "string \<Rightarrow> bool \<Rightarrow> deployInput \<Rightarrow> deployWorld \<Rightarrow> (error + unit) option \<times> deployWorld" where
  "deployZip fsPath confirmDeployment inp w =
     (if confirmDeployment \<and> confirmation inp \<noteq> Some Yes then (Some (Inl UserCancelledError), w)
      else
        (case getKuduClient (credentials inp) of
           Inl e \<Rightarrow> (Some (Inl e), w)
         | Inr kuduClient \<Rightarrow>
             (case resolveZipFile fsPath (zipMade inp) w of
                (Inl e, w1) \<Rightarrow> (Some (Inl e), w1)
              | (Inr z, w1) \<Rightarrow>
                  (let w2 = appendLine ''Starting deployment...'' w1;
                       w3 = w2\<lparr>zipsPushed := zipsPushed w2 @ [fst z]\<rparr>
                   in case pushError inp of
                        Some e \<Rightarrow> (Some (Inl (responseBodyError e)), cleanUpZip z w3)
                      | None \<Rightarrow>
                          (case waitForDeploymentToComplete None (statusAnswers inp) of
                             (None, t) \<Rightarrow> (None, w3\<lparr>outputLines := outputLines w3 @ logged t\<rparr>)
                           | (Some (Inl e), t) \<Rightarrow>
                               (Some (Inl (responseBodyError e)),
                                cleanUpZip z (w3\<lparr>outputLines := outputLines w3 @ logged t\<rparr>))
                           | (Some (Inr deployment), t) \<Rightarrow>
                               (Some (Inr ()),
                                appendLine ''Deployment completed.''
                                  (cleanUpZip z (w3\<lparr>outputLines := outputLines w3 @ logged t\<rparr>))))))))"

text \<open>
  What the user and the services answer during one \<open>deployRunFromZip\<close>: the zip made, the
  storage accounts (name and resource id), the account the user picks, its keys, the URL
  of the uploaded blob, the application settings, and the outcome of their update.
\<close>

record runFromZipInput =
  zipMadeR :: "error + string"
  storageAccounts :: "error + (string \<times> string) list"
  accountChoice :: "nat option"
  storageKey :: "error + string"
  blobUrl :: "error + string"
  listedSettings :: "error + (string \<rightharpoonup> string)"
  updateError :: "error option"

text \<open>\<open>blobUrl.replace('%3A', ':')\<close>: the first occurrence is replaced.\<close>

fun replaceColon :: "string \<Rightarrow> string" where
  "replaceColon (a # b # c # rest) =
     (if [a, b, c] = ''%3A'' then CHR '':'' # rest else a # replaceColon (b # c # rest))"
| "replaceColon s = s"

text \<open>The \<open>try\<close> block of \<open>deployRunFromZip\<close>, with \<open>createBlobService\<close>, which parses the
  resource id of the storage account.\<close>

definition uploadAndPoint :: "runFromZipInput \<Rightarrow> deployWorld \<Rightarrow> (error + unit) \<times> deployWorld" where
  "uploadAndPoint inp w =
     (case storageAccounts inp of
        Inl e \<Rightarrow> (Inl e, w)
      | Inr accounts \<Rightarrow>
          (case showQuickPick accounts (accountChoice inp) of
             Inl e \<Rightarrow> (Inl e, w)
           | Inr (saName, saId) \<Rightarrow>
               (case parseAzureResourceId saId of
                  Inl e \<Rightarrow> (Inl e, w)
                | Inr parsedId \<Rightarrow>
                    (case storageKey inp of
                       Inl e \<Rightarrow> (Inl e, w)
                     | Inr key \<Rightarrow>
                         (case blobUrl inp of
                            Inl e \<Rightarrow> (Inl e, w)
                          | Inr url \<Rightarrow>
                              (let w1 = appendLine ''Starting deployment...'' w
                               in case listedSettings inp of
                                    Inl e \<Rightarrow> (Inl e, w1)
                                  | Inr appSettings \<Rightarrow>
                                      (case updateError inp of
                                         Some e \<Rightarrow> (Inl e, w1)
                                       | None \<Rightarrow>
                                           (Inr (),
                                            w1\<lparr>siteSettings :=
                                                  appSettings(''WEBSITE_USE_ZIP'' \<mapsto>
                                                    replaceColon url)\<rparr>))))))))"

text \<open>\<open>deployRunFromZip\<close>, the variant that uploads the zip to blob storage.\<close>

definition deployRunFromZip ::
  "string \<Rightarrow> runFromZipInput \<Rightarrow> deployWorld \<Rightarrow> (error + unit) \<times> deployWorld" where
  "deployRunFromZip fsPath inp w =
     (case resolveZipFile fsPath (zipMadeR inp) w of
        (Inl e, w1) \<Rightarrow> (Inl e, w1)
      | (Inr z, w1) \<Rightarrow>
          (case uploadAndPoint inp w1 of
             (Inl e, w2) \<Rightarrow> (Inl (responseBodyError e), cleanUpZip z w2)
           | (Inr u, w2) \<Rightarrow> (Inr (), cleanUpZip z w2)))"

text \<open>A machine with the project directory \<open>/work/app\<close> and the package
  \<open>/work/app.zip\<close>, and answers for the examples.\<close>

definition exampleWorld :: deployWorld where
  "exampleWorld =
     \<lparr>files = {''/work/app.zip''}, directories = {''/work/app''}, zipsCreated = [],
      deleteCalls = [], outputLines = [], zipsPushed = [], siteSettings = Map.empty\<rparr>"

definition goodDeploy :: deployInput where
  "goodDeploy =
     \<lparr>confirmation = Some Yes, credentials = Inr (Some ''user'', Some ''secret''),
      zipMade = Inr ''/tmp/1a2b.zip'', pushError = None,
      statusAnswers = [Inr buildingResult, Inr doneResult]\<rparr>"

definition cancelledDeploy :: deployInput where
  "cancelledDeploy = goodDeploy\<lparr>confirmation := Some Cancel\<rparr>"

text \<open>The claim's terms: the zip files made during a call, and whether a call that gets
  to choose its zip file makes one (the path is not a zip file's, it is a directory, and
  \<open>zipDirectory\<close> succeeds).\<close>

definition newZips :: "deployWorld \<Rightarrow> deployWorld \<Rightarrow> string list" where
  "newZips w w' = drop (length (zipsCreated w)) (zipsCreated w')"

definition packagesZip :: "string \<Rightarrow> (error + string) \<Rightarrow> deployWorld \<Rightarrow> bool" where
  "packagesZip fsPath made w \<longleftrightarrow>
     getFileExtension fsPath \<noteq> ''zip'' \<and> isDirectory fsPath w \<and>
     (case made of Inl e \<Rightarrow> False | Inr p \<Rightarrow> True)"

text \<open>Whether \<open>deployZip\<close> gets to choose its zip file: the deployment is confirmed, where
  it has to be, and the Kudu client is there.\<close>

definition reachesZip :: "bool \<Rightarrow> deployInput \<Rightarrow> bool" where
  "reachesZip confirmDeployment inp \<longleftrightarrow>
     (confirmDeployment \<longrightarrow> confirmation inp = Some Yes) \<and>
     (case getKuduClient (credentials inp) of Inl e \<Rightarrow> False | Inr c \<Rightarrow> True)"

definition goodRunFromZip :: runFromZipInput where
  "goodRunFromZip =
     \<lparr>zipMadeR = Inr ''/tmp/3c4d.zip'',
      storageAccounts = Inr [(''store1'', ''/subscriptions/s1/resourceGroups/rg1'')],
      accountChoice = Some 0, storageKey = Inr ''key'',
      blobUrl = Inr ''https%3A//store1/zips/3c4d.zip'',
      listedSettings = Inr Map.empty, updateError = None\<rparr>"

section \<open>Changing the deployment source and deleting a site\<close>

text \<open>
  The site configuration (\<open>SiteConfigResource\<close>): the deployment source \<open>scmType\<close>, which
  may be \<open>undefined\<close>, and all its other settings.
\<close>

record siteConfig =
  scmType :: "string option"
  otherSettings :: "(string \<times> string) list"

text \<open>The calls a workflow makes on the site client and the messages it shows, in order.\<close>

datatype siteCall =
    GetSiteConfig
  | UpdateConfiguration siteConfig
  | ConnectToGitHub
  | ConfirmDelete
  | GetAppServicePlan
  | PlanPrompt
  | DeleteMethod bool
  | DeleteSlot

record siteTrace =
  calls :: "siteCall list"
  channel :: "string list"

definition called :: "siteCall \<Rightarrow> siteTrace \<Rightarrow> siteTrace" where
  "called c s = s\<lparr>calls := calls s @ [c]\<rparr>"

definition printed :: "string \<Rightarrow> siteTrace \<Rightarrow> siteTrace" where
  "printed line s = s\<lparr>channel := channel s @ [line]\<rparr>"

text \<open>The deployment sources the site wrapper offers.\<close>

definition SCM_TYPES :: "string list" where
  "SCM_TYPES = [''None'', ''LocalGit'']"

text \<open>
  Modelled from the spec: the enumeration \<open>ScmType\<close> of the newer \<open>editScmType\<close> is not among
  the sources; the spec names its members: none, local git and GitHub.  These are its
  values, in the order of its keys.
\<close>

definition ScmType :: "string list" where
  "ScmType = [''None'', ''LocalGit'', ''GitHub'']"

definition currentSource :: string where
  "currentSource = ''(Current source)''"

text \<open>The loop that builds the quick pick, an entry being its label and its description:
  the current source is put on top (\<open>unshift\<close>), the others are appended (\<open>push\<close>).\<close>

fun scmQuickPicks :: "string list \<Rightarrow> string option \<Rightarrow> (string \<times> string) list \<Rightarrow> (string \<times> string) list" where
  "scmQuickPicks [] currentScmType picks = picks"
| "scmQuickPicks (t # ts) currentScmType picks =
     scmQuickPicks ts currentScmType
       (if Some t = currentScmType then (t, currentSource) # picks else picks @ [(t, [])])"

text \<open>
  \<open>showScmPrompt\<close>, of both versions: the site wrapper's gets \<open>undefined\<close> from a dismissed
  picker and throws \<open>UserCancelledError\<close> itself, the newer one's \<open>ui.showQuickPick\<close> throws
  it.  \<open>chosen\<close> is the position of the entry the user chooses.
\<close>

definition showScmPrompt :: "string list \<Rightarrow> string option \<Rightarrow> nat option \<Rightarrow> error + string" where
  "showScmPrompt types currentScmType chosen =
     (case showQuickPick (scmQuickPicks types currentScmType []) chosen of
        Inl e \<Rightarrow> Inl e
      | Inr quickPick \<Rightarrow>
          if snd quickPick = currentSource then Inl UserCancelledError else Inr (fst quickPick))"

text \<open>What the service and the user answer during one \<open>editScmType\<close>: the configuration
  read, the entry chosen, the configuration the update answers with, and how
  \<open>connectToGitHub\<close> (not among the sources) goes.\<close>

record scmInput =
  configRead :: "error + siteConfig"
  scmChoice :: "nat option"
  updateAnswer :: "error + siteConfig"
  connectError :: "error option"

definition configurationError :: error where
  "configurationError =
     Error ''Configuration type must be set to \"None\" to connect to a GitHub repository.''"

text \<open>\<open>editScmType\<close> of the newer version.\<close>

definition editScmType :: "scmInput \<Rightarrow> siteTrace \<Rightarrow> (error + string) \<times> siteTrace" where
  "editScmType inp s =
     (let s0 = called GetSiteConfig s
      in case configRead inp of
           Inl e \<Rightarrow> (Inl e, s0)
         | Inr config \<Rightarrow>
             (case showScmPrompt ScmType (scmType config) (scmChoice inp) of
                Inl e \<Rightarrow> (Inl e, s0)
              | Inr newScmType \<Rightarrow>
                  (let (r, s1) =
                         (if newScmType = ''GitHub'' then
                            (if scmType config \<noteq> Some ''None'' then (Some configurationError, s0)
                             else (connectError inp, called ConnectToGitHub s0))
                          else
                            (case updateAnswer inp of Inl e \<Rightarrow> Some e | Inr c \<Rightarrow> None,
                             called (UpdateConfiguration (config\<lparr>scmType := Some newScmType\<rparr>)) s0))
                   in case r of
                        Some e \<Rightarrow> (Inl e, s1)
                      | None \<Rightarrow>
                          (Inr newScmType,
                           printed (''Deployment source has been updated to \"'' @ newScmType @ ''\".'')
                             s1))))"

text \<open>\<open>SiteWrapper.editScmType\<close> with \<open>updateScmType\<close>: what is returned is the \<open>scmType\<close> of
  the configuration the update answers with.\<close>

definition editScmType_wrapper :: "scmInput \<Rightarrow> siteTrace \<Rightarrow> (error + string option) \<times> siteTrace" where
  "editScmType_wrapper inp s =
     (let s0 = called GetSiteConfig s
      in case configRead inp of
           Inl e \<Rightarrow> (Inl e, s0)
         | Inr config \<Rightarrow>
             (case showScmPrompt SCM_TYPES (scmType config) (scmChoice inp) of
                Inl e \<Rightarrow> (Inl e, s0)
              | Inr newScmType \<Rightarrow>
                  (let s1 = called (UpdateConfiguration (config\<lparr>scmType := Some newScmType\<rparr>)) s0
                   in case updateAnswer inp of
                        Inl e \<Rightarrow> (Inl e, s1)
                      | Inr newConfig \<Rightarrow> (Inr (scmType newConfig), s1))))"

text \<open>The entry the user chooses in the picker of the newer version, if any.\<close>

definition chosenEntry :: "string list \<Rightarrow> string option \<Rightarrow> nat option \<Rightarrow> (string \<times> string) option" where
  "chosenEntry types currentScmType chosen =
     (case showQuickPick (scmQuickPicks types currentScmType []) chosen of
        Inl e \<Rightarrow> None | Inr quickPick \<Rightarrow> Some quickPick)"

definition isUpdate :: "siteCall \<Rightarrow> bool" where
  "isUpdate c = (case c of UpdateConfiguration cfg \<Rightarrow> True | _ \<Rightarrow> False)"

text \<open>An App Service plan, with the two members \<open>deleteSite\<close> reads.\<close>

record appServicePlan =
  planName :: string
  numberOfSites :: "int option"

text \<open>What the user and the service answer during one \<open>deleteSite\<close>: the answer to the
  confirmation, the plan, the answer to the question about the plan, and the outcome of
  the delete call.\<close>

record deleteInput =
  confirmAnswer :: "dialogResponse option"
  planRead :: "error + appServicePlan"
  planAnswer :: "dialogResponse option"
  deleteError :: "error option"

text \<open>\<open>plan.numberOfSites < 2\<close>: false when the number is \<open>undefined\<close>.\<close>

definition lastSite :: "appServicePlan \<Rightarrow> bool" where
  "lastSite plan = (case numberOfSites plan of None \<Rightarrow> False | Some n \<Rightarrow> n < 2)"

text \<open>\<open>SiteWrapper.deleteSite\<close>; the site is a deployment slot when it has a slot name.
  The two lines printed name the site; here they are cut down to their verbs.\<close>

definition deleteSite_wrapper :: "string option \<Rightarrow> deleteInput \<Rightarrow> siteTrace \<Rightarrow> (error + unit) \<times> siteTrace" where
  "deleteSite_wrapper slotName inp s =
     (let s0 = called ConfirmDelete s
      in if confirmAnswer inp \<noteq> Some Yes then (Inl UserCancelledError, s0)
         else
           (let (plan, s1) = (if \<not> truthy slotName
                              then (Some (planRead inp), called GetAppServicePlan s0)
                              else (None, s0))
            in case plan of
                 Some (Inl e) \<Rightarrow> (Inl e, s1)
               | _ \<Rightarrow>
                   (let (deletePlan, s2) =
                          (if \<not> truthy slotName \<and>
                              (case plan of Some (Inr p) \<Rightarrow> lastSite p | _ \<Rightarrow> False)
                           then (case planAnswer inp of
                                   None \<Rightarrow> Inl UserCancelledError
                                 | Some input \<Rightarrow> Inr (input = Yes),
                                 called PlanPrompt s1)
                           else (Inr False, s1))
                    in case deletePlan of
                         Inl e \<Rightarrow> (Inl e, s2)
                       | Inr flag \<Rightarrow>
                           (let s3 = printed ''Deleting...'' s2;
                                s4 = called (if truthy slotName then DeleteSlot
                                             else DeleteMethod flag) s3
                            in case deleteError inp of
                                 Some e \<Rightarrow> (Inl e, s4)
                               | None \<Rightarrow> (Inr (), printed ''Successfully deleted.'' s4)))))"

text \<open>
  Modelled from the spec: \<open>IAzureUserInput.showWarningMessage\<close> is not among the sources.
  It returns the button the user chose; cancelling, by the Cancel button or by dismissing
  the message, is the cancellation signal \<open>UserCancelledError\<close>.
\<close>

definition showWarningMessage :: "dialogResponse option \<Rightarrow> error + dialogResponse" where
  "showWarningMessage answer =
     (case answer of
        None \<Rightarrow> Inl UserCancelledError
      | Some Cancel \<Rightarrow> Inl UserCancelledError
      | Some r \<Rightarrow> Inr r)"

text \<open>\<open>deleteSite\<close> of the newer version, on a site client that knows whether it is a
  slot's.\<close>

definition deleteSite :: "bool \<Rightarrow> deleteInput \<Rightarrow> siteTrace \<Rightarrow> (error + unit) \<times> siteTrace" where
  "deleteSite isSlot inp s =
     (let s0 = called ConfirmDelete s
      in case showWarningMessage (confirmAnswer inp) of
           Inl e \<Rightarrow> (Inl e, s0)
         | Inr confirmed \<Rightarrow>
           (let (plan, s1) = (if \<not> isSlot
                              then (Some (planRead inp), called GetAppServicePlan s0)
                              else (None, s0))
            in case plan of
                 Some (Inl e) \<Rightarrow> (Inl e, s1)
               | _ \<Rightarrow>
                   (let (deletePlan, s2) =
                          (if \<not> isSlot \<and> (case plan of Some (Inr p) \<Rightarrow> lastSite p | _ \<Rightarrow> False)
                           then (case showWarningMessage (planAnswer inp) of
                                   Inl e \<Rightarrow> Inl e
                                 | Inr input \<Rightarrow> Inr (input = Yes),
                                 called PlanPrompt s1)
                           else (Inr False, s1))
                    in case deletePlan of
                         Inl e \<Rightarrow> (Inl e, s2)
                       | Inr flag \<Rightarrow>
                           (let s3 = printed ''Deleting...'' s2;
                                s4 = called (DeleteMethod flag) s3
                            in case deleteError inp of
                                 Some e \<Rightarrow> (Inl e, s4)
                               | None \<Rightarrow> (Inr (), printed ''Successfully deleted.'' s4)))))"

text \<open>Inputs for the examples.\<close>

definition noTrace :: siteTrace where
  "noTrace = \<lparr>calls = [], channel = []\<rparr>"

definition localGitConfig :: siteConfig where
  "localGitConfig = \<lparr>scmType = Some ''LocalGit'', otherSettings = [(''phpVersion'', ''7.2'')]\<rparr>"

definition noneConfig :: siteConfig where
  "noneConfig = \<lparr>scmType = Some ''None'', otherSettings = [(''phpVersion'', ''7.2'')]\<rparr>"

definition scmExample :: "siteConfig \<Rightarrow> nat \<Rightarrow> scmInput" where
  "scmExample config i =
     \<lparr>configRead = Inr config, scmChoice = Some i, updateAnswer = Inr config, connectError = None\<rparr>"

definition slotDelete :: deleteInput where
  "slotDelete =
     \<lparr>confirmAnswer = Some Yes, planRead = Inl (Error ''never asked''),
      planAnswer = None, deleteError = None\<rparr>"

definition lastSiteDelete :: deleteInput where
  "lastSiteDelete =
     \<lparr>confirmAnswer = Some Yes,
      planRead = Inr \<lparr>planName = ''plan1'', numberOfSites = Some 1\<rparr>,
      planAnswer = Some Yes, deleteError = None\<rparr>"

section \<open>Properties of \<open>parseAzureResourceId\<close>\<close>

lemma drop_two: "Suc i < length xs \<Longrightarrow> drop i xs = xs ! i # xs ! Suc i # drop (Suc (Suc i)) xs"
  by (metis Cons_nth_drop_Suc Suc_lessD)

lemma own_pairs_step:
  "map_of (rev (filter (\<lambda>p. fst p \<noteq> ''__proto__'') ((k, v) # ps))) =
     setProperty k v Map.empty ++ map_of (rev (filter (\<lambda>p. fst p \<noteq> ''__proto__'') ps))"
  by (rule ext) (simp add: setProperty_def map_add_def split: option.splits)

lemma setProperty_add: "setProperty k v m ++ n = m ++ (setProperty k v Map.empty ++ n)"
  by (rule ext) (simp add: setProperty_def map_add_def split: option.splits)

lemma parse_loop_eq:
  "i \<le> length parts \<Longrightarrow> even (length parts - i) \<Longrightarrow>
   parse_loop parts i result =
     (if [] \<in> set (drop i parts) then Inl invalidIdErr
      else Inr (result ++
             map_of (rev (filter (\<lambda>p. fst p \<noteq> ''__proto__'') (segment_pairs (drop i parts))))))"
proof (induction parts i result rule: parse_loop.induct)
  case (1 parts i result)
  show ?case
  proof (cases "i < length parts")
    case False
    then show ?thesis by (simp add: parse_loop.simps)
  next
    case True
    with "1.prems" have lt: "Suc i < length parts"
      by (metis Suc_lessI diff_self_eq_0 even_Suc diff_Suc_1 Suc_diff_Suc even_zero zero_less_diff odd_one One_nat_def)
    have d: "drop i parts = parts ! i # parts ! Suc i # drop (Suc (Suc i)) parts"
      using lt by (rule drop_two)
    show ?thesis
    proof (cases "parts ! i = [] \<or> parts ! Suc i = []")
      case True
      then show ?thesis using lt d
        by (subst parse_loop.simps) (auto simp: js_index_def Let_def)
    next
      case False
      have ev: "even (length parts - (i + 2))" using "1.prems" lt by simp
      have le: "i + 2 \<le> length parts" using lt by simp
      have k: "js_index parts i = Str (parts ! i)" and v: "js_index parts (i + 1) = Str (parts ! Suc i)"
        and v': "js_index parts (Suc i) = Str (parts ! Suc i)"
        using lt by (simp_all add: js_index_def)
      have nk: "\<not> (js_index parts i = Str [] \<or> js_index parts (i + 1) = Str [])"
        using False k v by simp
      have IH: "parse_loop parts (i + 2) (setProperty (parts ! i) (Str (parts ! Suc i)) result) =
         (if [] \<in> set (drop (i + 2) parts) then Inl invalidIdErr
          else Inr (setProperty (parts ! i) (Str (parts ! Suc i)) result ++
                 map_of (rev (filter (\<lambda>p. fst p \<noteq> ''__proto__'')
                                (segment_pairs (drop (i + 2) parts))))))"
        using "1.IH"[OF \<open>i < length parts\<close> refl refl nk le ev]
        unfolding k v jsval.case .
      have lhs: "parse_loop parts i result =
          parse_loop parts (i + 2) (setProperty (parts ! i) (Str (parts ! Suc i)) result)"
        using True False by (subst parse_loop.simps) (simp add: k v' Let_def)
      have mem: "[] \<in> set (drop i parts) \<longleftrightarrow> [] \<in> set (drop (i + 2) parts)"
        using False by (subst d) auto
      have sp: "segment_pairs (drop i parts) =
          (parts ! i, Str (parts ! Suc i)) # segment_pairs (drop (i + 2) parts)"
        by (subst d) simp
      show ?thesis
        unfolding lhs IH mem sp own_pairs_step
        by (subst setProperty_add) (rule refl)
    qed
  qed
qed

lemma split_slash_ne: "split_slash s \<noteq> []"
  by (induction s) (auto split: list.splits)

text \<open>
  Claim C10, as the code has it: \<open>parseAzureResourceId\<close> throws \<open>Invalid Account ID.\<close>
  exactly when the string is empty, shorter than two characters, does not start with a
  slash, splits after that slash into an odd number of segments, or has an empty segment.
  Otherwise it returns the object built by assigning, from left to right, each
  odd-indexed segment to the property named by the segment before it.  A key that occurs
  again is overwritten, so every key ends up with the value that follows its last
  occurrence; and the key \<open>__proto__\<close> names no property of the object returned, its
  assignment being taken by the setter the object inherits.
\<close>

theorem parseAzureResourceId_spec:
  "parseAzureResourceId s =
     (if rejected_id s then Inl (Error ''Invalid Account ID.'')
      else Inr (map_of (rev (filter (\<lambda>p. fst p \<noteq> ''__proto__'')
                               (segment_pairs (split_slash (tl s)))))))"
proof (cases "s = [] \<or> length s < 2 \<or> hd s \<noteq> CHR ''/''")
  case True
  then show ?thesis
    by (cases s) (auto simp: parseAzureResourceId_def rejected_id_def charAt_def invalidIdErr_def)
next
  case False
  then have c: "charAt s 0 = ''/''" by (cases s) (auto simp: charAt_def)
  show ?thesis
  proof (cases "odd (length (split_slash (tl s)))")
    case True
    then show ?thesis using False c
      by (simp add: parseAzureResourceId_def rejected_id_def invalidIdErr_def drop_Suc odd_iff_mod_2_eq_one)
  next
    case ev: False
    then show ?thesis using False c parse_loop_eq[of 0 "split_slash (tl s)" Map.empty]
      by (simp add: parseAzureResourceId_def rejected_id_def invalidIdErr_def drop_Suc Let_def)
  qed
qed

text \<open>The theorem at \<open>/subscriptions/s1/resourceGroups/rg1\<close>: accepted, and
  \<open>resourceGroups\<close> is paired with \<open>rg1\<close>; at \<open>/a\<close>, with its odd number of segments:
  rejected.\<close>

theorem parseAzureResourceId_spec_witness:
  "\<not> rejected_id ''/subscriptions/s1/resourceGroups/rg1'' \<and>
   projr (parseAzureResourceId ''/subscriptions/s1/resourceGroups/rg1'') ''resourceGroups''
     = Some (Str ''rg1'') \<and>
   projr (parseAzureResourceId ''/subscriptions/s1/resourceGroups/rg1'') ''subscriptions''
     = Some (Str ''s1'') \<and>
   rejected_id ''/a'' \<and> parseAzureResourceId ''/a'' = Inl (Error ''Invalid Account ID.'')"
  using parseAzureResourceId_spec [of "''/subscriptions/s1/resourceGroups/rg1''"]
    parseAzureResourceId_spec [of "''/a''"]
  by (simp add: rejected_id_def)

text \<open>
  Claim C10 as it is worded fails where a key occurs twice: in \<open>/a/1/a/2\<close> the
  segment at index 0 is \<open>a\<close> and the segment after it is \<open>1\<close>, and the returned object
  pairs \<open>a\<close> with \<open>2\<close>.
\<close>

theorem parseAzureResourceId_duplicate_key_counterexample:
  "split_slash (tl ''/a/1/a/2'') ! 0 = ''a'' \<and> split_slash (tl ''/a/1/a/2'') ! 1 = ''1'' \<and>
   isl (parseAzureResourceId ''/a/1/a/2'') = False \<and>
   projr (parseAzureResourceId ''/a/1/a/2'') ''a'' = Some (Str ''2'')"
  by (simp add: parseAzureResourceId_def charAt_def parse_loop.simps js_index_def Let_def
      setProperty_def)

text \<open>The identifier \<open>/__proto__/x\<close> is accepted, and the object returned has no property:
  neither \<open>__proto__\<close> nor any other name is paired with \<open>x\<close>.\<close>

lemma parseAzureResourceId_proto:
  "parseAzureResourceId ''/__proto__/x'' = Inr Map.empty"
  by (simp add: parseAzureResourceId_def charAt_def parse_loop.simps js_index_def Let_def
      setProperty_def)

section \<open>Properties of the child cache\<close>

subsection \<open>Sorting\<close>

lemma mset_sort_insert: "mset (sort_insert cmp x xs) = add_mset x (mset xs)"
  by (induction xs) auto

lemma set_sort_insert: "set (sort_insert cmp x xs) = insert x (set xs)"
  by (induction xs) auto

lemma sorted_sort_insert:
  assumes "consistentComparator cmp" "sortedBy cmp xs"
  shows "sortedBy cmp (sort_insert cmp x xs)"
  using assms(2)
proof (induction xs)
  case Nil
  then show ?case by (simp add: sortedBy_def)
next
  case (Cons y ys)
  have anti: "\<And>a b. 0 \<le> cmp a b \<Longrightarrow> cmp b a \<le> 0"
    and trans: "\<And>a b c. cmp a b \<le> 0 \<Longrightarrow> cmp b c \<le> 0 \<Longrightarrow> cmp a c \<le> 0"
    using assms(1) unfolding consistentComparator_def by blast+
  from Cons.prems have ys: "sortedBy cmp ys" and yz: "\<forall>z\<in>set ys. cmp y z \<le> 0"
    by (simp_all add: sortedBy_def)
  show ?case
  proof (cases "cmp x y < 0")
    case True
    then have xy: "cmp x y \<le> 0" by simp
    have "\<forall>z\<in>set ys. cmp x z \<le> 0"
      using yz trans[OF xy] by blast
    with xy ys yz have "sorted_wrt (\<lambda>a b. cmp a b \<le> 0) (x # y # ys)"
      by (simp add: sortedBy_def)
    with True show ?thesis by (simp add: sortedBy_def)
  next
    case False
    then have yx: "cmp y x \<le> 0" using anti[of x y] by simp
    have "sortedBy cmp (sort_insert cmp x ys)" using Cons.IH ys by simp
    moreover have "\<forall>z\<in>set (sort_insert cmp x ys). cmp y z \<le> 0"
      using yx yz by (simp add: set_sort_insert)
    ultimately have "sorted_wrt (\<lambda>a b. cmp a b \<le> 0) (y # sort_insert cmp x ys)"
      by (simp add: sortedBy_def)
    with False show ?thesis by (simp add: sortedBy_def)
  qed
qed

lemma foldl_sort_insert:
  "mset (foldl (\<lambda>acc x. sort_insert cmp x acc) acc xs) = mset acc + mset xs"
  by (induction xs arbitrary: acc) (auto simp: mset_sort_insert)

lemma foldl_sort_sorted:
  "consistentComparator cmp \<Longrightarrow> sortedBy cmp acc \<Longrightarrow>
   sortedBy cmp (foldl (\<lambda>acc x. sort_insert cmp x acc) acc xs)"
  by (induction xs arbitrary: acc) (auto simp: sorted_sort_insert)

lemma mset_js_sort: "mset (js_sort cmp xs) = mset xs"
  by (simp add: js_sort_def foldl_sort_insert)

lemma sorted_js_sort: "consistentComparator cmp \<Longrightarrow> sortedBy cmp (js_sort cmp xs)"
  unfolding js_sort_def by (rule foldl_sort_sorted) (simp_all add: sortedBy_def)

lemma codeUnitCompare_range: "codeUnitCompare a b \<in> {- 1, 0, 1}"
  by (induction a b rule: codeUnitCompare.induct) simp_all

lemma codeUnitCompare_anti: "codeUnitCompare b a = - codeUnitCompare a b"
  by (induction a b rule: codeUnitCompare.induct) simp_all

lemma codeUnitCompare_trans:
  "codeUnitCompare a b \<le> 0 \<Longrightarrow> codeUnitCompare b c \<le> 0 \<Longrightarrow> codeUnitCompare a c \<le> 0"
proof (induction a b arbitrary: c rule: codeUnitCompare.induct)
  case 1 then show ?case by simp
next
  case (2 y ys) then show ?case by (cases c) simp_all
next
  case (3 x xs) then show ?case by simp
next
  case (4 x xs y ys)
  show ?case
  proof (cases c)
    case Nil
    with 4 show ?thesis by simp
  next
    case (Cons z zs)
    define a b d where "a = (of_char x :: nat)" and "b = (of_char y :: nat)" and "d = (of_char z :: nat)"
    have ab: "a \<le> b" using "4.prems"(1) unfolding a_def b_def by (simp split: if_splits)
    have bd: "b \<le> d" using "4.prems"(2) Cons unfolding d_def b_def by (simp split: if_splits)
    show ?thesis
    proof (cases "a < d")
      case True
      then show ?thesis using Cons by (simp add: a_def d_def)
    next
      case False
      with ab bd have e: "a = b" "b = d" by simp_all
      then have "codeUnitCompare xs ys \<le> 0" using "4.prems"(1) by (simp add: a_def b_def)
      moreover have "codeUnitCompare ys zs \<le> 0" using "4.prems"(2) Cons e by (simp add: b_def d_def)
      ultimately have "codeUnitCompare xs zs \<le> 0" using "4.IH" e by (simp add: a_def b_def)
      then show ?thesis using Cons e by (simp add: a_def b_def d_def)
    qed
  qed
qed

text \<open>A comparison of labels is one a sort can follow when the collation is; the
  comparison by character codes is.\<close>

lemma consistent_defaultCompare:
  "consistentComparator lc \<Longrightarrow> consistentComparator (defaultCompare lc)"
  unfolding consistentComparator_def defaultCompare_def by blast

lemma consistent_codeUnitCompare: "consistentComparator codeUnitCompare"
  unfolding consistentComparator_def
proof (intro conjI allI impI)
  fix a b :: string
  assume "0 \<le> codeUnitCompare a b"
  then show "codeUnitCompare b a \<le> 0"
    using codeUnitCompare_anti[of b a] by simp
next
  fix a b c :: string
  assume "codeUnitCompare a b \<le> 0 \<and> codeUnitCompare b c \<le> 0"
  then show "codeUnitCompare a c \<le> 0"
    using codeUnitCompare_trans by blast
qed


lemma createNewNodes_props:
  "createNewNodes this ts w = (ns, w') \<Longrightarrow>
     map treeItem ns = ts \<and> distinct (map ref ns) \<and>
     (\<forall>n\<in>set ns. nextRef w \<le> ref n \<and> ref n < nextRef w') \<and>
     nextRef w \<le> nextRef w' \<and> fired w' = fired w \<and>
     (\<forall>r. r < nextRef w \<longrightarrow> heap w' r = heap w r)"
proof (induction ts arbitrary: w ns w')
  case Nil
  then show ?case by simp
next
  case (Cons t ts)
  obtain n w1 where c: "createNewNode this t w = (n, w1)" by (cases "createNewNode this t w")
  obtain ms w2 where r: "createNewNodes this ts w1 = (ms, w2)" by (cases "createNewNodes this ts w1")
  from Cons.prems c r have e: "ns = n # ms" "w' = w2" by simp_all
  from c have n: "ref n = nextRef w" "treeItem n = t" "nextRef w1 = Suc (nextRef w)" "fired w1 = fired w"
    and h1: "\<forall>r. r < nextRef w \<longrightarrow> heap w1 r = heap w r"
    by (auto simp: createNewNode_def Let_def)
  from Cons.IH[OF r] have ih: "map treeItem ms = ts" "distinct (map ref ms)"
    "\<forall>m\<in>set ms. nextRef w1 \<le> ref m \<and> ref m < nextRef w2"
    "nextRef w1 \<le> nextRef w2" "fired w2 = fired w1"
    "\<forall>r. r < nextRef w1 \<longrightarrow> heap w2 r = heap w1 r" by simp_all
  have notin: "ref n \<notin> ref ` set ms" using ih(3) n(1,3) by fastforce
  show ?case
    using e n h1 ih notin by fastforce
qed


subsection \<open>\<open>loadMoreChildren\<close>\<close>

lemma nodeFields_setFields [simp]: "nodeFields this (setFields this f w) = f"
  by (simp add: nodeFields_def setFields_def)

lemma nextRef_setFields [simp]: "nextRef (setFields this f w) = nextRef w"
  by (simp add: setFields_def)

lemma fired_setFields [simp]: "fired (setFields this f w) = fired w"
  by (simp add: setFields_def)

lemma loadMoreChildren_error:
  assumes "page (cachedChildren (nodeFields this w) = None) = Inl e"
  shows "loadMoreChildren lc this res page w =
           (Inl e, setFields this ((nodeFields this w)\<lparr>cachedChildren := Some (cacheList this w)\<rparr>) w)"
  using assms by (simp add: loadMoreChildren_def Let_def cacheList_def)

lemma loadMoreChildren_ok:
  assumes "page (cachedChildren (nodeFields this w) = None) = Inr ts" and "ref this < nextRef w"
  shows "\<exists>ns w'. loadMoreChildren lc this res page w = (Inr (), w') \<and>
           cachedChildren (nodeFields this w') =
              Some (js_sort (sortCallback lc res) (cacheList this w @ ns)) \<and>
           creatingNodes (nodeFields this w') = creatingNodes (nodeFields this w) \<and>
           map treeItem ns = ts \<and> distinct (map ref ns) \<and>
           (\<forall>n\<in>set ns. nextRef w \<le> ref n \<and> ref n < nextRef w') \<and>
           nextRef w \<le> nextRef w' \<and> fired w' = fired w"
proof -
  define w1 where "w1 = setFields this ((nodeFields this w)\<lparr>cachedChildren := Some (cacheList this w)\<rparr>) w"
  obtain ns w2 where c: "createNewNodes this ts w1 = (ns, w2)" by (cases "createNewNodes this ts w1")
  note p = createNewNodes_props[OF c]
  have n1: "nextRef w1 = nextRef w" "fired w1 = fired w" by (simp_all add: w1_def)
  have f2: "nodeFields this w2 = nodeFields this w1"
    using p assms(2) n1 by (simp add: nodeFields_def)
  have f1: "nodeFields this w1 = (nodeFields this w)\<lparr>cachedChildren := Some (cacheList this w)\<rparr>"
    by (simp add: w1_def)
  have p': "map treeItem ns = ts" "distinct (map ref ns)"
    "\<forall>n\<in>set ns. nextRef w \<le> ref n \<and> ref n < nextRef w2"
    "nextRef w \<le> nextRef w2" "fired w2 = fired w"
    using p n1 by simp_all
  define w' where "w' = setFields this ((nodeFields this w2)\<lparr>cachedChildren :=
          Some (js_sort (sortCallback lc res) (cacheList this w @ ns))\<rparr>) w2"
  have l: "loadMoreChildren lc this res page w = (Inr (), w')"
    using assms(1) c by (simp add: loadMoreChildren_def Let_def cacheList_def w1_def w'_def)
  have a: "cachedChildren (nodeFields this w') = Some (js_sort (sortCallback lc res) (cacheList this w @ ns))"
    and b: "creatingNodes (nodeFields this w') = creatingNodes (nodeFields this w)"
    and n': "nextRef w' = nextRef w2" "fired w' = fired w2"
    by (simp_all add: w'_def f2 f1)
  show ?thesis
    apply (rule exI[of _ ns])
    apply (rule exI[of _ w'])
    using l a b p' n' apply simp
    done
qed


lemma loadMoreChildren_step:
  fixes p :: "bool \<Rightarrow> error + azureTreeItem list"
  assumes inv: "cacheInv this w" and srt: "sortedBy (sortCallback lc res) (cacheList this w)"
    and cons: "consistentComparator (sortCallback lc res)"
  defines "w' \<equiv> snd (loadMoreChildren lc this res p w)"
  shows "cacheInv this w' \<and> sortedBy (sortCallback lc res) (cacheList this w') \<and>
      cachedChildren (nodeFields this w') \<noteq> None \<and>
      mset (map treeItem (cacheList this w')) =
           mset (map treeItem (cacheList this w)) +
           mset (pageItems (p (cachedChildren (nodeFields this w) = None)))"
proof -
  from inv have rt: "ref this < nextRef w" and bnd: "\<forall>n\<in>set (cacheList this w). ref n < nextRef w"
    and dst: "distinct (map ref (cacheList this w))"
    by (simp_all add: cacheInv_def)
  show ?thesis
  proof (cases "p (cachedChildren (nodeFields this w) = None)")
    case (Inl e)
    have w': "w' = setFields this ((nodeFields this w)\<lparr>cachedChildren := Some (cacheList this w)\<rparr>) w"
      unfolding w'_def using loadMoreChildren_error[of p this w e lc res, OF Inl] by simp
    have cl: "cacheList this w' = cacheList this w"
      by (simp add: w' cacheList_def)
    have "cacheInv this w'"
      using inv unfolding cacheInv_def cl by (simp add: w')
    moreover have "cachedChildren (nodeFields this w') \<noteq> None" by (simp add: w')
    ultimately show ?thesis
      using srt cl Inl by (simp add: pageItems_def)
  next
    case (Inr ts)
    from loadMoreChildren_ok[of p this w ts lc res, OF Inr rt] obtain ns w2 where
      l: "loadMoreChildren lc this res p w = (Inr (), w2)"
      and c: "cachedChildren (nodeFields this w2) = Some (js_sort (sortCallback lc res) (cacheList this w @ ns))"
      and ti: "map treeItem ns = ts" and dn: "distinct (map ref ns)"
      and bn: "\<forall>n\<in>set ns. nextRef w \<le> ref n \<and> ref n < nextRef w2"
      and le: "nextRef w \<le> nextRef w2"
      by blast
    have w': "w' = w2" by (simp add: w'_def l)
    have cl: "cacheList this w' = js_sort (sortCallback lc res) (cacheList this w @ ns)"
      by (simp add: w' cacheList_def c)
    have ms: "mset (cacheList this w') = mset (cacheList this w) + mset ns"
      by (simp add: cl mset_js_sort)
    have st: "set (cacheList this w') = set (cacheList this w) \<union> set ns"
      using ms by (metis mset_append set_append set_mset_mset)
    have d0: "distinct (map ref (cacheList this w @ ns))"
      using dst dn bnd bn by fastforce
    have "mset (map ref (cacheList this w')) = mset (map ref (cacheList this w @ ns))"
      using ms by (metis mset_append mset_map)
    then have d: "distinct (map ref (cacheList this w'))"
      using d0 by (metis mset_eq_imp_distinct_iff)
    have b: "\<forall>n\<in>set (cacheList this w'). ref n < nextRef w'"
    proof
      fix n assume "n \<in> set (cacheList this w')"
      then have "n \<in> set (cacheList this w) \<or> n \<in> set ns" using st by simp
      then show "ref n < nextRef w'" using bnd bn le by (auto simp: w')
    qed
    have i: "cacheInv this w'"
      unfolding cacheInv_def using d b rt le by (simp add: w')
    have m: "mset (map treeItem (cacheList this w')) =
           mset (map treeItem (cacheList this w)) + mset ts"
      using ms ti by (metis mset_append mset_map map_append)
    show ?thesis
      using i m Inr sorted_js_sort[OF cons, of "cacheList this w @ ns"] c[folded w']
      by (simp add: cl[symmetric] pageItems_def)
  qed
qed

lemma loadMoreSeq_gen:
  assumes "cacheInv this w" and "sortedBy (sortCallback lc res) (cacheList this w)"
    and "consistentComparator (sortCallback lc res)"
  shows "cacheInv this (loadMoreSeq lc this res ps w) \<and>
         sortedBy (sortCallback lc res) (cacheList this (loadMoreSeq lc this res ps w)) \<and>
         (ps \<noteq> [] \<longrightarrow> cachedChildren (nodeFields this (loadMoreSeq lc this res ps w)) \<noteq> None) \<and>
         mset (map treeItem (cacheList this (loadMoreSeq lc this res ps w))) =
           mset (map treeItem (cacheList this w)) +
           mset (fetched (cachedChildren (nodeFields this w) = None) ps)"
  using assms
proof (induction ps arbitrary: w)
  case Nil
  then show ?case by simp
next
  case (Cons p ps)
  define w1 where "w1 = snd (loadMoreChildren lc this res p w)"
  from loadMoreChildren_step[OF Cons.prems, of p, folded w1_def]
  have st: "cacheInv this w1" "sortedBy (sortCallback lc res) (cacheList this w1)"
    "cachedChildren (nodeFields this w1) \<noteq> None"
    "mset (map treeItem (cacheList this w1)) =
           mset (map treeItem (cacheList this w)) +
           mset (pageItems (p (cachedChildren (nodeFields this w) = None)))" by simp_all
  note ih = Cons.IH[OF st(1) st(2) Cons.prems(3)]
  have keep: "ps = [] \<Longrightarrow> cachedChildren (nodeFields this (loadMoreSeq lc this res ps w1)) \<noteq> None"
    using st(3) by simp
  show ?case
    using ih st(3,4) keep by (auto simp: w1_def[symmetric])
qed


lemma sortCallback_plain: "sortCallback lc plainResource = defaultCompare lc"
  by (simp add: sortCallback_def plainResource_def)

text \<open>
  Claim C1, as the code has it: after every non-empty sequence of \<open>loadMoreChildren\<close> calls
  on a parent whose cache was not loaded, the cache is loaded, its tree items are, as a
  multiset, exactly the items of all the pages fetched so far (an item fetched twice is
  there twice, each time in a node object of its own), no node object is in it twice,
  and it is sorted by the active comparator, provided that comparator is one a sort can
  follow.  The active comparator is \<open>compareChildren\<close> when the tree item has one, and
  otherwise the comparison of the labels by \<open>localeCompare\<close>, whatever the collation
  \<open>lc\<close> of the host is.
\<close>

theorem loadMoreChildren_cache:
  assumes "ref this < nextRef w" and "cachedChildren (nodeFields this w) = None"
    and "consistentComparator (sortCallback lc res)" and "ps \<noteq> []"
  shows "\<exists>c. cachedChildren (nodeFields this (loadMoreSeq lc this res ps w)) = Some c \<and>
           mset (map treeItem c) = mset (fetched True ps) \<and>
           sortedBy (sortCallback lc res) c \<and> distinct (map ref c)"
proof -
  have cl: "cacheList this w = []" using assms(2) by (simp add: cacheList_def)
  have inv: "cacheInv this w" using assms(1) by (simp add: cacheInv_def cl)
  have srt: "sortedBy (sortCallback lc res) (cacheList this w)" by (simp add: cl sortedBy_def)
  from loadMoreSeq_gen[OF inv srt assms(3), of ps] assms(2,4)
  have g: "cacheInv this (loadMoreSeq lc this res ps w)"
    "sortedBy (sortCallback lc res) (cacheList this (loadMoreSeq lc this res ps w))"
    "cachedChildren (nodeFields this (loadMoreSeq lc this res ps w)) \<noteq> None"
    "mset (map treeItem (cacheList this (loadMoreSeq lc this res ps w))) = mset (fetched True ps)"
    by (simp_all add: cl)
  from g(3) obtain c where c: "cachedChildren (nodeFields this (loadMoreSeq lc this res ps w)) = Some c"
    by blast
  then have "cacheList this (loadMoreSeq lc this res ps w) = c" by (simp add: cacheList_def)
  with g c show ?thesis by (simp add: cacheInv_def)
qed

text \<open>The theorem on the spec's own example, the pages \<open>b, a\<close> and then \<open>c\<close>, under the
  collation by character codes.\<close>

theorem loadMoreChildren_cache_witness:
  "\<exists>c. cachedChildren (nodeFields exampleRoot
            (loadMoreSeq codeUnitCompare exampleRoot plainResource
               [\<lambda>clear. Inr [exampleItem ''b'', exampleItem ''a''], \<lambda>clear. Inr [exampleItem ''c'']]
               exampleTree)) = Some c \<and>
       mset (map treeItem c) = mset [exampleItem ''b'', exampleItem ''a'', exampleItem ''c''] \<and>
       sortedBy (defaultCompare codeUnitCompare) c \<and> distinct (map ref c)"
proof -
  have 1: "ref exampleRoot < nextRef exampleTree" by (simp add: exampleRoot_def exampleTree_def)
  have 2: "cachedChildren (nodeFields exampleRoot exampleTree) = None"
    by (simp add: exampleRoot_def exampleTree_def emptyTree_def nodeFields_def newParentFields_def)
  have 3: "consistentComparator (sortCallback codeUnitCompare plainResource)"
    by (simp add: sortCallback_plain consistent_defaultCompare consistent_codeUnitCompare)
  show ?thesis
    using loadMoreChildren_cache[OF 1 2 3, of "[\<lambda>clear. Inr [exampleItem ''b'', exampleItem ''a''], \<lambda>clear. Inr [exampleItem ''c'']]"]
    by (simp add: sortCallback_plain pageItems_def)
qed

text \<open>The cache of that example, computed: \<open>a, b, c\<close>.\<close>

lemma example_end_to_end:
  "map (\<lambda>n. label (treeItem n)) (cacheList exampleRoot
            (loadMoreSeq codeUnitCompare exampleRoot plainResource
               [\<lambda>clear. Inr [exampleItem ''b'', exampleItem ''a''], \<lambda>clear. Inr [exampleItem ''c'']]
               exampleTree)) = [''a'', ''b'', ''c'']"
  by (simp add: cacheList_def loadMoreChildren_def Let_def nodeFields_def setFields_def
      createNewNode_def js_sort_def sortCallback_def plainResource_def defaultCompare_def
      exampleItem_def exampleRoot_def exampleTree_def emptyTree_def newParentFields_def)

text \<open>
  Claim C1 as the spec words it fails in its "no duplicates": nothing removes an item that
  a later page brings again.  Two pages that both hold the item \<open>a\<close> leave it in the
  cache twice.
\<close>

theorem loadMoreChildren_duplicates_counterexample:
  "map treeItem (cacheList exampleRoot
            (loadMoreSeq codeUnitCompare exampleRoot plainResource
               [\<lambda>clear. Inr [exampleItem ''a''], \<lambda>clear. Inr [exampleItem ''a'']]
               exampleTree)) = [exampleItem ''a'', exampleItem ''a'']"
  by (simp add: cacheList_def loadMoreChildren_def Let_def nodeFields_def setFields_def
      createNewNode_def js_sort_def sortCallback_def plainResource_def defaultCompare_def
      exampleItem_def exampleRoot_def exampleTree_def emptyTree_def newParentFields_def)


subsection \<open>\<open>addNodeToCache\<close> and \<open>createChild\<close>\<close>

lemma splice_insert_0 [simp]: "splice_insert 0 x xs = x # xs"
  by (simp add: splice_insert_def)

lemma splice_insert_Suc [simp]: "splice_insert (Suc k) x (y # ys) = y # splice_insert k x ys"
  by (simp add: splice_insert_def)

lemma insertIndex_le: "insertIndex lc n c \<le> length c"
  by (induction c) auto

lemma mset_splice_insert: "mset (splice_insert k x xs) = add_mset x (mset xs)"
proof -
  have "mset (take k xs) + mset (drop k xs) = mset xs"
    by (metis append_take_drop_id mset_append)
  then show ?thesis by (simp add: splice_insert_def)
qed

lemma set_splice_insert: "set (splice_insert k x xs) = insert x (set xs)"
  by (metis mset_splice_insert set_mset_mset set_mset_add_mset_insert)

lemma sorted_label_insert:
  assumes "consistentComparator lc" and "sortedBy (defaultCompare lc) c"
  shows "sortedBy (defaultCompare lc) (splice_insert (insertIndex lc n c) n c)"
  using assms(2)
proof (induction c)
  case Nil
  then show ?case by (simp add: sortedBy_def)
next
  case (Cons x xs)
  have anti: "\<And>a b. 0 \<le> lc a b \<Longrightarrow> lc b a \<le> 0"
    and trans: "\<And>a b c. lc a b \<le> 0 \<Longrightarrow> lc b c \<le> 0 \<Longrightarrow> lc a c \<le> 0"
    using assms(1) unfolding consistentComparator_def by blast+
  from Cons.prems have xs: "sortedBy (defaultCompare lc) xs"
    and xz: "\<forall>z\<in>set xs. defaultCompare lc x z \<le> 0"
    by (simp_all add: sortedBy_def)
  show ?case
  proof (cases "lc (label (treeItem n)) (label (treeItem x)) < 1")
    case True
    then have nx: "defaultCompare lc n x \<le> 0" by (simp add: defaultCompare_def)
    have "\<forall>z\<in>set xs. defaultCompare lc n z \<le> 0"
      using xz nx trans unfolding defaultCompare_def by blast
    with nx xs xz have "sorted_wrt (\<lambda>a b. defaultCompare lc a b \<le> 0) (n # x # xs)"
      by (simp add: sortedBy_def)
    with True show ?thesis by (simp add: sortedBy_def)
  next
    case False
    then have xn: "defaultCompare lc x n \<le> 0"
      using anti[of "label (treeItem n)" "label (treeItem x)"]
      by (simp add: defaultCompare_def)
    have "sortedBy (defaultCompare lc) (splice_insert (insertIndex lc n xs) n xs)"
      using Cons.IH xs by simp
    moreover have "\<forall>z\<in>set (splice_insert (insertIndex lc n xs) n xs). defaultCompare lc x z \<le> 0"
      using xn xz by (simp add: set_splice_insert)
    ultimately have "sorted_wrt (\<lambda>a b. defaultCompare lc a b \<le> 0)
        (x # splice_insert (insertIndex lc n xs) n xs)"
      by (simp add: sortedBy_def)
    with False show ?thesis by (simp add: sortedBy_def)
  qed
qed

lemma indexOf_fresh: "\<forall>x\<in>set xs. ref x \<noteq> ref n \<Longrightarrow> indexOf (xs @ [n]) n = int (length xs)"
  by (induction xs) (auto simp: Let_def)

lemma splice_remove_last: "splice_remove (int (length xs)) (xs @ [n]) = xs"
  by (simp add: splice_remove_def Let_def)

lemma nodeFields_refresh [simp]: "nodeFields this (refresh n False w) = nodeFields this w"
  by (simp add: refresh_def nodeFields_def split: option.splits)

lemma nextRef_refresh [simp]: "nextRef (refresh n False w) = nextRef w"
  by (simp add: refresh_def split: option.splits)

lemma fired_refresh [simp]: "fired (refresh n False w) = fired w @ [map_option ref n]"
  by (simp add: refresh_def split: option.splits)

lemma showCreatingNode_props:
  assumes "showCreatingNode this l w = (cn, w1)"
  shows "ref cn = nextRef w" and "nextRef w1 = Suc (nextRef w)"
    and "creatingNodes (nodeFields this w1) = creatingNodes (nodeFields this w) @ [cn]"
    and "cachedChildren (nodeFields this w1) = cachedChildren (nodeFields this w)"
    and "fired w1 = fired w @ [Some (ref this)]"
  using assms
  by (auto simp: showCreatingNode_def newAzureNode_def Let_def nodeFields_def setFields_def refresh_def)

lemma createNewNode_props:
  assumes "createNewNode this t w = (n, w1)" and "ref this < nextRef w"
  shows "treeItem n = t" and "ref n = nextRef w" and "nextRef w1 = Suc (nextRef w)"
    and "nodeFields this w1 = nodeFields this w" and "fired w1 = fired w"
  using assms by (auto simp: createNewNode_def Let_def nodeFields_def)

lemma addNodeToCache_None:
  "cachedChildren (nodeFields this w) = None \<Longrightarrow> addNodeToCache lc this n w = w"
  by (simp add: addNodeToCache_def)

lemma addNodeToCache_Some:
  assumes "cachedChildren (nodeFields this w) = Some c"
  shows "cachedChildren (nodeFields this (addNodeToCache lc this n w)) = Some (splice_insert (insertIndex lc n c) n c)"
    and "creatingNodes (nodeFields this (addNodeToCache lc this n w)) = creatingNodes (nodeFields this w)"
    and "fired (addNodeToCache lc this n w) = fired w @ [Some (ref this)]"
    and "nextRef (addNodeToCache lc this n w) = nextRef w"
  using assms by (simp_all add: addNodeToCache_def)


lemma createChild_try:
  assumes "ref this < nextRef w1"
    and "(case out of
            Inl e \<Rightarrow> (Inl e, w1)
          | Inr newTreeItem \<Rightarrow>
              (let (newNode, w') = createNewNode this newTreeItem w1
               in (Inr newNode, addNodeToCache lc this newNode w'))) = (r, w2)"
  shows "creatingNodes (nodeFields this w2) = creatingNodes (nodeFields this w1) \<and>
     (case out of
        Inl e \<Rightarrow> r = Inl e \<and> cachedChildren (nodeFields this w2) = cachedChildren (nodeFields this w1) \<and>
                 fired w2 = fired w1
      | Inr t \<Rightarrow> (\<exists>n. r = Inr n \<and> treeItem n = t \<and>
           (case cachedChildren (nodeFields this w1) of
              None \<Rightarrow> cachedChildren (nodeFields this w2) = None \<and> fired w2 = fired w1
            | Some c \<Rightarrow> cachedChildren (nodeFields this w2) = Some (splice_insert (insertIndex lc n c) n c) \<and>
                        fired w2 = fired w1 @ [Some (ref this)])))"
proof (cases out)
  case (Inl e)
  with assms(2) show ?thesis by simp
next
  case (Inr t)
  obtain n w' where c: "createNewNode this t w1 = (n, w')" by (cases "createNewNode this t w1")
  note p = createNewNode_props[OF c assms(1)]
  from assms(2) Inr c have r: "r = Inr n" and w2: "w2 = addNodeToCache lc this n w'" by simp_all
  show ?thesis
  proof (cases "cachedChildren (nodeFields this w1)")
    case None
    then have "cachedChildren (nodeFields this w') = None" using p(4) by simp
    then have "w2 = w'" using w2 by (simp add: addNodeToCache_None)
    then show ?thesis using Inr None r p by simp
  next
    case (Some c0)
    then have s': "cachedChildren (nodeFields this w') = Some c0" using p(4) by simp
    show ?thesis
      using Inr Some r p addNodeToCache_Some[OF s', of lc n] by (simp add: w2)
  qed
qed

lemma createChild_finally:
  assumes "creatingNodes (nodeFields this w2) = old @ [cn]" and "\<forall>x\<in>set old. ref x \<noteq> ref cn"
  defines "w' \<equiv> (let f = nodeFields this w2
                     in refresh (Some this) False
                          (setFields this
                             (f\<lparr>creatingNodes :=
                                  splice_remove (indexOf (creatingNodes f) cn) (creatingNodes f)\<rparr>)
                             w2))"
  shows "creatingNodes (nodeFields this w') = old \<and>
         cachedChildren (nodeFields this w') = cachedChildren (nodeFields this w2) \<and>
         fired w' = fired w2 @ [Some (ref this)]"
  using assms(1) indexOf_fresh[OF assms(2)]
  by (simp add: w'_def Let_def splice_remove_last)

text \<open>
  Claim C3, as the code has it.  Let the tree item support \<open>createChild\<close>, and let its
  creation call the progress callback at most once.  Then when \<open>createChild\<close> returns
  or throws, the list of placeholder nodes is what it was before the call, and the
  notifications fired during the call are refreshes of this parent and no others: one
  when the placeholder is shown and one when it is taken away, and one more for the new
  node exactly when the creation succeeds under a loaded cache.  When the creation
  throws, the error is passed on and the cache is untouched.  When it succeeds, the new
  item's node is returned; if the cache was loaded, the node is inserted at the first
  position whose label its label does not follow by \<open>localeCompare\<close>, so that a cache
  sorted by label stays sorted by label when the collation \<open>lc\<close> of the host is one a
  sort can follow; if the cache was not loaded, it stays unloaded.
\<close>

theorem createChild_placeholder_removed:
  assumes "hasCreateChild res" and "ref this < nextRef w"
    and "\<forall>n\<in>set (creatingNodes (nodeFields this w)). ref n < nextRef w"
    and "length (fst b) \<le> 1"
    and "createChild lc this res b w = (r, w')"
  shows "creatingNodes (nodeFields this w') = creatingNodes (nodeFields this w) \<and>
     (case snd b of
        Inl e \<Rightarrow> r = Inl e \<and> cachedChildren (nodeFields this w') = cachedChildren (nodeFields this w) \<and>
                 fired w' = fired w @ replicate (2 * length (fst b)) (Some (ref this))
      | Inr t \<Rightarrow> (\<exists>n. r = Inr n \<and> treeItem n = t \<and>
           (case cachedChildren (nodeFields this w) of
              None \<Rightarrow> cachedChildren (nodeFields this w') = None \<and>
                      fired w' = fired w @ replicate (2 * length (fst b)) (Some (ref this))
            | Some c \<Rightarrow> cachedChildren (nodeFields this w') = Some (splice_insert (insertIndex lc n c) n c) \<and>
                        (consistentComparator lc \<and> sortedBy (defaultCompare lc) c \<longrightarrow>
                           sortedBy (defaultCompare lc) (splice_insert (insertIndex lc n c) n c)) \<and>
                        fired w' = fired w @ replicate (2 * length (fst b) + 1) (Some (ref this)))))"
proof -
  obtain ls out where b: "b = (ls, out)" by (cases b)
  obtain cn0 w1 where rc: "runCallbacks this ls None w = (cn0, w1)"
    by (cases "runCallbacks this ls None w")
  obtain r2 w2 where tr: "(case out of
            Inl e \<Rightarrow> (Inl e, w1)
          | Inr newTreeItem \<Rightarrow>
              (let (newNode, w') = createNewNode this newTreeItem w1
               in (Inr newNode, addNodeToCache lc this newNode w'))) = (r2, w2)"
    by (cases "(case out of
            Inl e \<Rightarrow> (Inl e, w1)
          | Inr newTreeItem \<Rightarrow>
              (let (newNode, w') = createNewNode this newTreeItem w1
               in (Inr newNode, addNodeToCache lc this newNode w')))")
  from assms(1,5) b rc tr have r: "r = r2"
    and w': "w' = (case cn0 of None \<Rightarrow> w2 | Some cn \<Rightarrow>
                    (let f = nodeFields this w2
                     in refresh (Some this) False
                          (setFields this
                             (f\<lparr>creatingNodes :=
                                  splice_remove (indexOf (creatingNodes f) cn) (creatingNodes f)\<rparr>)
                             w2)))"
    by (simp_all add: createChild_def)
  from assms(4) b have "ls = [] \<or> (\<exists>l. ls = [l])"
    by (cases ls) (auto simp: length_Suc_conv)
  then show ?thesis
  proof
    assume e: "ls = []"
    with rc have c: "cn0 = None" "w1 = w" by simp_all
    from w' c have w2: "w' = w2" by simp
    from createChild_try[OF _ tr, unfolded c(2), OF assms(2)]
    have t: "creatingNodes (nodeFields this w2) = creatingNodes (nodeFields this w)"
      "(case out of
        Inl e \<Rightarrow> r2 = Inl e \<and> cachedChildren (nodeFields this w2) = cachedChildren (nodeFields this w) \<and>
                 fired w2 = fired w
      | Inr t \<Rightarrow> (\<exists>n. r2 = Inr n \<and> treeItem n = t \<and>
           (case cachedChildren (nodeFields this w) of
              None \<Rightarrow> cachedChildren (nodeFields this w2) = None \<and> fired w2 = fired w
            | Some c \<Rightarrow> cachedChildren (nodeFields this w2) = Some (splice_insert (insertIndex lc n c) n c) \<and>
                        fired w2 = fired w @ [Some (ref this)])))"
      by simp_all
    have main: "case out of
        Inl e \<Rightarrow> r2 = Inl e \<and> cachedChildren (nodeFields this w2) = cachedChildren (nodeFields this w) \<and>
                 fired w2 = fired w @ replicate (2 * length ls) (Some (ref this))
      | Inr t \<Rightarrow> (\<exists>n. r2 = Inr n \<and> treeItem n = t \<and>
           (case cachedChildren (nodeFields this w) of
              None \<Rightarrow> cachedChildren (nodeFields this w2) = None \<and>
                      fired w2 = fired w @ replicate (2 * length ls) (Some (ref this))
            | Some c \<Rightarrow> cachedChildren (nodeFields this w2) = Some (splice_insert (insertIndex lc n c) n c) \<and>
                        (consistentComparator lc \<and> sortedBy (defaultCompare lc) c \<longrightarrow>
                           sortedBy (defaultCompare lc) (splice_insert (insertIndex lc n c) n c)) \<and>
                        fired w2 = fired w @ replicate (2 * length ls + 1) (Some (ref this))))"
      using t(2) sorted_label_insert e by (auto split: sum.splits option.splits)
    show ?thesis
      unfolding b fst_conv snd_conv r w2 using t(1) main by simp
  next
    assume "\<exists>l. ls = [l]"
    then obtain l where e: "ls = [l]" by blast
    obtain cn where sc: "showCreatingNode this l w = (cn, w1)" and c: "cn0 = Some cn"
      using rc e by (cases "showCreatingNode this l w") auto
    note p = showCreatingNode_props[OF sc]
    have fresh: "\<forall>x\<in>set (creatingNodes (nodeFields this w)). ref x \<noteq> ref cn"
      using assms(3) p(1) by auto
    have lt: "ref this < nextRef w1" using assms(2) p(2) by simp
    from createChild_try[OF lt tr, unfolded p(3,4,5)]
    have t: "creatingNodes (nodeFields this w2) = creatingNodes (nodeFields this w) @ [cn]"
      "(case out of
        Inl e \<Rightarrow> r2 = Inl e \<and> cachedChildren (nodeFields this w2) = cachedChildren (nodeFields this w) \<and>
                 fired w2 = fired w @ [Some (ref this)]
      | Inr t \<Rightarrow> (\<exists>n. r2 = Inr n \<and> treeItem n = t \<and>
           (case cachedChildren (nodeFields this w) of
              None \<Rightarrow> cachedChildren (nodeFields this w2) = None \<and> fired w2 = fired w @ [Some (ref this)]
            | Some c \<Rightarrow> cachedChildren (nodeFields this w2) = Some (splice_insert (insertIndex lc n c) n c) \<and>
                        fired w2 = (fired w @ [Some (ref this)]) @ [Some (ref this)])))"
      by simp_all
    from createChild_finally[OF t(1) fresh] w' c
    have f: "creatingNodes (nodeFields this w') = creatingNodes (nodeFields this w)"
      "cachedChildren (nodeFields this w') = cachedChildren (nodeFields this w2)"
      "fired w' = fired w2 @ [Some (ref this)]"
      by simp_all
    have main: "case out of
        Inl e \<Rightarrow> r2 = Inl e \<and> cachedChildren (nodeFields this w') = cachedChildren (nodeFields this w) \<and>
                 fired w' = fired w @ replicate (2 * length ls) (Some (ref this))
      | Inr t \<Rightarrow> (\<exists>n. r2 = Inr n \<and> treeItem n = t \<and>
           (case cachedChildren (nodeFields this w) of
              None \<Rightarrow> cachedChildren (nodeFields this w') = None \<and>
                      fired w' = fired w @ replicate (2 * length ls) (Some (ref this))
            | Some c \<Rightarrow> cachedChildren (nodeFields this w') = Some (splice_insert (insertIndex lc n c) n c) \<and>
                        (consistentComparator lc \<and> sortedBy (defaultCompare lc) c \<longrightarrow>
                           sortedBy (defaultCompare lc) (splice_insert (insertIndex lc n c) n c)) \<and>
                        fired w' = fired w @ replicate (2 * length ls + 1) (Some (ref this))))"
      using t(2) f(2,3) sorted_label_insert e
      by (auto simp: numeral_2_eq_2 numeral_3_eq_3 split: sum.splits option.splits)
    show ?thesis
      unfolding b fst_conv snd_conv r using f(1) main by simp
  qed
qed


subsection \<open>Running the operations on the example tree\<close>

lemmas tree_eval =
  cacheList_def loadMoreChildren_def createChild_def addNodeToCache_def showCreatingNode_def
  newAzureNode_def createNewNode_def refresh_def Let_def nodeFields_def setFields_def
  js_sort_def sortCallback_def defaultCompare_def splice_insert_def splice_remove_def
  creatingTreeItem_def newParentFields_def emptyTree_def
  exampleItem_def exampleRoot_def exampleTree_def plainResource_def creatingResource_def
  descendingResource_def loadedTree_def descendingTree_def

lemma loadedTree_facts:
  "ref exampleRoot < nextRef loadedTree"
  "creatingNodes (nodeFields exampleRoot loadedTree) = []"
  "map (\<lambda>n. label (treeItem n)) (cacheList exampleRoot loadedTree) = [''a'', ''c'']"
  by (simp_all add: tree_eval)

lemma loadedTree_sorted:
  "sortedBy (defaultCompare codeUnitCompare) (cacheList exampleRoot loadedTree)"
  by (simp add: tree_eval sortedBy_def)

text \<open>The theorem on the example parent, under the collation by character codes: a
  child \<open>b\<close> is created, with one placeholder shown, while \<open>a\<close> and \<open>c\<close> are cached.  The
  placeholder is gone, three refreshes of the parent were fired, and the cache is still
  sorted by label.\<close>

theorem createChild_placeholder_removed_witness:
  "hasCreateChild creatingResource \<and> ref exampleRoot < nextRef loadedTree \<and>
   length (fst ([''b''], Inr (exampleItem ''b'') :: error + azureTreeItem)) \<le> 1 \<and>
   creatingNodes (nodeFields exampleRoot
      (snd (createChild codeUnitCompare exampleRoot creatingResource ([''b''], Inr (exampleItem ''b'')) loadedTree)))
     = creatingNodes (nodeFields exampleRoot loadedTree) \<and>
   fired (snd (createChild codeUnitCompare exampleRoot creatingResource ([''b''], Inr (exampleItem ''b'')) loadedTree))
     = fired loadedTree @ [Some (ref exampleRoot), Some (ref exampleRoot), Some (ref exampleRoot)] \<and>
   sortedBy (defaultCompare codeUnitCompare) (cacheList exampleRoot
      (snd (createChild codeUnitCompare exampleRoot creatingResource ([''b''], Inr (exampleItem ''b'')) loadedTree)))"
proof -
  have 1: "hasCreateChild creatingResource" by (simp add: creatingResource_def)
  have 3: "\<forall>n\<in>set (creatingNodes (nodeFields exampleRoot loadedTree)). ref n < nextRef loadedTree"
    by (simp add: loadedTree_facts)
  have 4: "length (fst ([''b''], Inr (exampleItem ''b'') :: error + azureTreeItem)) \<le> 1" by simp
  obtain c0 where c0: "cachedChildren (nodeFields exampleRoot loadedTree) = Some c0"
    by (simp add: tree_eval)
  then have s0: "sortedBy (defaultCompare codeUnitCompare) c0"
    using loadedTree_sorted by (simp add: cacheList_def)
  obtain r w' where c: "createChild codeUnitCompare exampleRoot creatingResource ([''b''], Inr (exampleItem ''b'')) loadedTree = (r, w')"
    by (cases "createChild codeUnitCompare exampleRoot creatingResource ([''b''], Inr (exampleItem ''b'')) loadedTree")
  from createChild_placeholder_removed[OF 1 loadedTree_facts(1) 3 4 c]
  show ?thesis using 1 loadedTree_facts(1) c c0 s0 consistent_codeUnitCompare
    by (auto simp: cacheList_def numeral_3_eq_3)
qed

lemma createChild_example:
  "map (\<lambda>n. label (treeItem n)) (cacheList exampleRoot
      (snd (createChild codeUnitCompare exampleRoot creatingResource ([''b''], Inr (exampleItem ''b'')) loadedTree)))
     = [''a'', ''b'', ''c'']"
  by (simp add: tree_eval)

text \<open>
  Claim C3 as the spec words it fails in its last part: \<open>addNodeToCache\<close> does nothing
  while the cache is \<open>undefined\<close>.  A child created under a parent that was never
  expanded, with no placeholder shown, is returned without being put into any cache and
  without any notification.
\<close>

theorem createChild_unloaded_counterexample:
  "fst (createChild codeUnitCompare exampleRoot creatingResource ([], Inr (exampleItem ''new'')) exampleTree)
     = Inr \<lparr>ref = 1, treeItem = exampleItem ''new'', parent = Some 0, isParentNode = False\<rparr> \<and>
   cachedChildren (nodeFields exampleRoot
      (snd (createChild codeUnitCompare exampleRoot creatingResource ([], Inr (exampleItem ''new'')) exampleTree))) = None \<and>
   fired (snd (createChild codeUnitCompare exampleRoot creatingResource ([], Inr (exampleItem ''new'')) exampleTree)) = []"
  by (simp add: tree_eval)

text \<open>What the hypothesis on the callback leaves out: of two placeholders shown during
  one creation only the last is taken away.\<close>

lemma createChild_two_callbacks:
  "map (\<lambda>n. label (treeItem n)) (creatingNodes (nodeFields exampleRoot
      (snd (createChild codeUnitCompare exampleRoot creatingResource ([''x'', ''y''], Inr (exampleItem ''new'')) exampleTree))))
     = [''Creating x...'']"
  by (simp add: tree_eval)

text \<open>
  Claim C2 does not hold of the code: \<open>loadMoreChildren\<close> sorts with \<open>compareChildren\<close>
  when the tree item has one, and \<open>addNodeToCache\<close> always places the new node by label.
  Under a parent that keeps its children in descending order of labels, the cache
  \<open>b, a\<close> is sorted; after \<open>createChild\<close> adds \<open>c\<close> it is \<open>b, a, c\<close>, which is not.
  The labels are compared by their character codes here.
\<close>

theorem addNodeToCache_ignores_compareChildren:
  "map (\<lambda>n. label (treeItem n)) (cacheList exampleRoot (descendingTree codeUnitCompare)) = [''b'', ''a''] \<and>
   sortedBy (sortCallback codeUnitCompare (descendingResource codeUnitCompare))
     (cacheList exampleRoot (descendingTree codeUnitCompare)) \<and>
   map (\<lambda>n. label (treeItem n)) (cacheList exampleRoot
      (snd (createChild codeUnitCompare exampleRoot (descendingResource codeUnitCompare)
              ([], Inr (exampleItem ''c'')) (descendingTree codeUnitCompare))))
     = [''b'', ''a'', ''c''] \<and>
   \<not> sortedBy (sortCallback codeUnitCompare (descendingResource codeUnitCompare)) (cacheList exampleRoot
      (snd (createChild codeUnitCompare exampleRoot (descendingResource codeUnitCompare)
              ([], Inr (exampleItem ''c'')) (descendingTree codeUnitCompare))))"
  by (simp add: tree_eval sortedBy_def)

text \<open>The same under every collation that puts \<open>a\<close> before \<open>b\<close> and \<open>c\<close> after both.\<close>

lemma addNodeToCache_by_label_under_any_collation:
  assumes "lc ''a'' ''b'' < 0" and "0 < lc ''c'' ''b''" and "0 < lc ''c'' ''a''"
  shows "map (\<lambda>n. label (treeItem n)) (cacheList exampleRoot (descendingTree lc)) = [''b'', ''a''] \<and>
   sortedBy (sortCallback lc (descendingResource lc)) (cacheList exampleRoot (descendingTree lc)) \<and>
   map (\<lambda>n. label (treeItem n)) (cacheList exampleRoot
      (snd (createChild lc exampleRoot (descendingResource lc)
              ([], Inr (exampleItem ''c'')) (descendingTree lc))))
     = [''b'', ''a'', ''c''] \<and>
   \<not> sortedBy (sortCallback lc (descendingResource lc)) (cacheList exampleRoot
      (snd (createChild lc exampleRoot (descendingResource lc)
              ([], Inr (exampleItem ''c'')) (descendingTree lc))))"
  using assms by (simp add: tree_eval sortedBy_def)

subsection \<open>The cache under sequences of operations\<close>

lemma runCallbacks_keeps:
  "runCallbacks this ls cn w = (cn', w') \<Longrightarrow>
     cachedChildren (nodeFields this w') = cachedChildren (nodeFields this w) \<and>
     nextRef w \<le> nextRef w'"
proof (induction ls arbitrary: cn w)
  case Nil
  then show ?case by simp
next
  case (Cons l ls)
  obtain n w1 where sc: "showCreatingNode this l w = (n, w1)" by (cases "showCreatingNode this l w")
  note p = showCreatingNode_props[OF sc]
  from Cons.prems sc have "runCallbacks this ls (Some n) w1 = (cn', w')" by simp
  from Cons.IH[OF this] p show ?case by simp
qed

lemma sortedBy_splice_remove:
  assumes "sortedBy cmp xs"
  shows "sortedBy cmp (splice_remove i xs)"
proof -
  have "\<And>s. sorted_wrt (\<lambda>a b. cmp a b \<le> 0) (take s xs @ drop (Suc s) xs)"
  proof -
    fix s
    from assms have "sorted_wrt (\<lambda>a b. cmp a b \<le> 0) (take s xs @ drop s xs)"
      by (simp add: sortedBy_def)
    then have a: "sorted_wrt (\<lambda>a b. cmp a b \<le> 0) (take s xs)"
      and b: "sorted_wrt (\<lambda>a b. cmp a b \<le> 0) (drop s xs)"
      and c: "\<forall>x\<in>set (take s xs). \<forall>y\<in>set (drop s xs). cmp x y \<le> 0"
      unfolding sorted_wrt_append by blast+
    have "drop (Suc s) xs = drop 1 (drop s xs)" by simp
    then have d: "sorted_wrt (\<lambda>a b. cmp a b \<le> 0) (drop (Suc s) xs)"
      using b by (metis sorted_wrt_drop)
    have "set (drop (Suc s) xs) \<subseteq> set (drop s xs)"
      by (metis \<open>drop (Suc s) xs = drop 1 (drop s xs)\<close> set_drop_subset)
    with a c d show "sorted_wrt (\<lambda>a b. cmp a b \<le> 0) (take s xs @ drop (Suc s) xs)"
      unfolding sorted_wrt_append by blast
  qed
  then show ?thesis by (simp add: sortedBy_def splice_remove_def Let_def)
qed

lemma applyOp_sorted:
  assumes "compareChildren res = None" and "ref this < nextRef w"
    and "sortedBy (defaultCompare lc) (cacheList this w)" and cons: "consistentComparator lc"
  shows "sortedBy (defaultCompare lc) (cacheList this (applyOp lc this res op w)) \<and>
         ref this < nextRef (applyOp lc this res op w)"
proof (cases op)
  case (LoadMore page)
  have sc: "sortCallback lc res = (defaultCompare lc)" using assms(1) by (simp add: sortCallback_def)
  show ?thesis
  proof (cases "page (cachedChildren (nodeFields this w) = None)")
    case (Inl e)
    from loadMoreChildren_error[of page this w e lc res, OF Inl] LoadMore assms show ?thesis
      by (simp add: cacheList_def)
  next
    case (Inr ts)
    from loadMoreChildren_ok[of page this w ts lc res, OF Inr assms(2)] obtain ns w' where
      "loadMoreChildren lc this res page w = (Inr (), w')"
      "cachedChildren (nodeFields this w') = Some (js_sort (sortCallback lc res) (cacheList this w @ ns))"
      "nextRef w \<le> nextRef w'" by blast
    with LoadMore assms(2) sorted_js_sort[OF consistent_defaultCompare[OF cons]] show ?thesis
      by (simp add: cacheList_def sc)
  qed
next
  case (CreateChild b)
  show ?thesis
  proof (cases "hasCreateChild res")
    case False
    with CreateChild assms show ?thesis by (simp add: createChild_def)
  next
    case True
    obtain cn0 w1 where rc: "runCallbacks this (fst b) None w = (cn0, w1)"
      by (cases "runCallbacks this (fst b) None w")
    note k = runCallbacks_keeps[OF rc]
    have lt: "ref this < nextRef w1" using k assms(2) by simp
    obtain r2 w2 where tr: "(case snd b of
            Inl e \<Rightarrow> (Inl e, w1)
          | Inr newTreeItem \<Rightarrow>
              (let (newNode, w') = createNewNode this newTreeItem w1
               in (Inr newNode, addNodeToCache lc this newNode w'))) = (r2, w2)"
      by (cases "(case snd b of
            Inl e \<Rightarrow> (Inl e, w1)
          | Inr newTreeItem \<Rightarrow>
              (let (newNode, w') = createNewNode this newTreeItem w1
               in (Inr newNode, addNodeToCache lc this newNode w')))")
    have c2: "sortedBy (defaultCompare lc) (cacheList this w2) \<and> ref this < nextRef w2"
    proof (cases "snd b")
      case (Inl e)
      with tr have "w2 = w1" by simp
      with k lt assms(3) show ?thesis by (simp add: cacheList_def)
    next
      case (Inr t)
      obtain n w' where c: "createNewNode this t w1 = (n, w')" by (cases "createNewNode this t w1")
      note p = createNewNode_props[OF c lt]
      from tr Inr c have w2: "w2 = addNodeToCache lc this n w'" by simp
      show ?thesis
      proof (cases "cachedChildren (nodeFields this w')")
        case None
        with w2 have "w2 = w'" by (simp add: addNodeToCache_None)
        with p k lt assms(3) show ?thesis by (simp add: cacheList_def)
      next
        case (Some c0)
        have "sortedBy (defaultCompare lc) c0"
          using Some p(4) k assms(3) by (simp add: cacheList_def)
        with addNodeToCache_Some[OF Some, of lc n] sorted_label_insert[OF cons, of c0 n] p lt w2
        show ?thesis by (simp add: cacheList_def)
      qed
    qed
    have w': "applyOp lc this res op w = (case cn0 of None \<Rightarrow> w2 | Some cn \<Rightarrow>
                    (let f = nodeFields this w2
                     in refresh (Some this) False
                          (setFields this
                             (f\<lparr>creatingNodes :=
                                  splice_remove (indexOf (creatingNodes f) cn) (creatingNodes f)\<rparr>)
                             w2)))"
      using CreateChild True rc tr by (simp add: createChild_def)
    show ?thesis
      unfolding w' using c2 by (cases cn0) (simp_all add: cacheList_def Let_def)
  qed
next
  case (AddNode n)
  show ?thesis
  proof (cases "cachedChildren (nodeFields this w)")
    case None
    with AddNode assms show ?thesis by (simp add: addNodeToCache_None)
  next
    case (Some c0)
    have "sortedBy (defaultCompare lc) c0" using Some assms(3) by (simp add: cacheList_def)
    with addNodeToCache_Some[OF Some, of lc n] sorted_label_insert[OF cons, of c0 n] AddNode assms(2)
    show ?thesis by (simp add: cacheList_def)
  qed
next
  case (RemoveNode n)
  show ?thesis
  proof (cases "cachedChildren (nodeFields this w)")
    case None
    with RemoveNode assms show ?thesis by (simp add: removeNodeFromCache_def)
  next
    case (Some c0)
    have "sortedBy (defaultCompare lc) c0" using Some assms(3) by (simp add: cacheList_def)
    from sortedBy_splice_remove[OF this] RemoveNode Some assms(2,3)
    show ?thesis by (simp add: removeNodeFromCache_def cacheList_def Let_def)
  qed
qed

text \<open>
  The invariant of the spec's data model where the code keeps it: under a parent whose
  tree item has no \<open>compareChildren\<close>, and a collation \<open>lc\<close> that a sort can follow, a
  cache sorted by label is still sorted by label after any sequence of
  \<open>loadMoreChildren\<close>, \<open>createChild\<close>, \<open>addNodeToCache\<close> and \<open>removeNodeFromCache\<close>, whatever
  the pages, the creations and the nodes are.
\<close>

theorem label_sorted_cache_invariant:
  assumes "compareChildren res = None" and "consistentComparator lc"
    and "ref this < nextRef w" and "sortedBy (defaultCompare lc) (cacheList this w)"
  shows "sortedBy (defaultCompare lc) (cacheList this (applyOps lc this res ops w))"
  using assms(3,4)
proof (induction ops arbitrary: w)
  case Nil
  then show ?case by simp
next
  case (Cons op ops)
  from applyOp_sorted[OF assms(1) Cons.prems assms(2), of op] Cons.IH show ?case by simp
qed

text \<open>The invariant on the example parent, through one operation of each kind.\<close>

theorem label_sorted_cache_invariant_witness:
  "sortedBy (defaultCompare codeUnitCompare) (cacheList exampleRoot
     (applyOps codeUnitCompare exampleRoot creatingResource
        [LoadMore (\<lambda>clear. Inr [exampleItem ''d'', exampleItem ''b'']),
         CreateChild ([''c''], Inr (exampleItem ''c'')),
         AddNode \<lparr>ref = 7, treeItem = exampleItem ''a'', parent = Some 0, isParentNode = False\<rparr>,
         RemoveNode \<lparr>ref = 1, treeItem = exampleItem ''d'', parent = Some 0, isParentNode = False\<rparr>]
        exampleTree))"
proof -
  have 1: "compareChildren creatingResource = None" by (simp add: creatingResource_def)
  have 2: "ref exampleRoot < nextRef exampleTree" by (simp add: exampleRoot_def exampleTree_def)
  have 3: "sortedBy (defaultCompare codeUnitCompare) (cacheList exampleRoot exampleTree)"
    by (simp add: tree_eval sortedBy_def)
  show ?thesis by (rule label_sorted_cache_invariant[OF 1 consistent_codeUnitCompare 2 3])
qed

lemma example_ops:
  "map (\<lambda>n. label (treeItem n)) (cacheList exampleRoot
     (applyOps codeUnitCompare exampleRoot creatingResource
        [LoadMore (\<lambda>clear. Inr [exampleItem ''d'', exampleItem ''b'']),
         CreateChild ([''c''], Inr (exampleItem ''c'')),
         AddNode \<lparr>ref = 7, treeItem = exampleItem ''a'', parent = Some 0, isParentNode = False\<rparr>,
         RemoveNode \<lparr>ref = 1, treeItem = exampleItem ''d'', parent = Some 0, isParentNode = False\<rparr>]
        exampleTree)) = [''a'', ''b'', ''c'']"
  by (simp add: tree_eval removeNodeFromCache_def)


text \<open>
  After \<open>clearCache\<close>, \<open>getCachedChildren\<close> asks the tree item for a page with
  \<open>clearCache\<close> set and returns the nodes of that page only, all of them new objects:
  what was cached before is gone.
\<close>

theorem clearCache_then_getCachedChildren:
  assumes "ref this < nextRef w" and "page True = Inr ts"
  shows "\<exists>c w'. getCachedChildren lc this res page (clearCache this w) = (Inr c, w') \<and>
           cachedChildren (nodeFields this w') = Some c \<and>
           mset (map treeItem c) = mset ts \<and>
           (\<forall>n\<in>set c. nextRef w \<le> ref n)"
proof -
  define w0 where "w0 = clearCache this w"
  have n0: "cachedChildren (nodeFields this w0) = None" and r0: "nextRef w0 = nextRef w"
    by (simp_all add: w0_def clearCache_def)
  have cl: "cacheList this w0 = []" using n0 by (simp add: cacheList_def)
  have p: "page (cachedChildren (nodeFields this w0) = None) = Inr ts" using assms(2) n0 by simp
  from loadMoreChildren_ok[of page this w0 ts lc res, OF p] assms(1) r0 obtain ns w' where
    l: "loadMoreChildren lc this res page w0 = (Inr (), w')"
    and c: "cachedChildren (nodeFields this w') = Some (js_sort (sortCallback lc res) ns)"
    and ti: "map treeItem ns = ts"
    and bn: "\<forall>n\<in>set ns. nextRef w0 \<le> ref n \<and> ref n < nextRef w'"
    by (auto simp: cl)
  have g: "getCachedChildren lc this res page w0 = (Inr (js_sort (sortCallback lc res) ns), w')"
    using n0 l c by (simp add: getCachedChildren_def)
  have m: "mset (js_sort (sortCallback lc res) ns) = mset ns" by (rule mset_js_sort)
  then have s: "set (js_sort (sortCallback lc res) ns) = set ns" by (metis set_mset_mset)
  have "mset (map treeItem (js_sort (sortCallback lc res) ns)) = mset ts"
    using m ti by (metis mset_map)
  with g c s bn r0 show ?thesis
    unfolding w0_def by auto
qed

text \<open>The same on the example parent, reloaded with the single item \<open>z\<close>.\<close>

theorem clearCache_then_getCachedChildren_witness:
  "\<exists>c w'. getCachedChildren codeUnitCompare exampleRoot creatingResource (\<lambda>clear. Inr [exampleItem ''z''])
             (clearCache exampleRoot loadedTree) = (Inr c, w') \<and>
          mset (map treeItem c) = mset [exampleItem ''z'']"
proof -
  from clearCache_then_getCachedChildren[of exampleRoot loadedTree "\<lambda>clear. Inr [exampleItem ''z'']"
      "[exampleItem ''z'']" codeUnitCompare creatingResource] loadedTree_facts(1)
  show ?thesis by auto
qed


section \<open>Properties of the node picker\<close>

lemma showNodePicker_loop_tag:
  "showNodePicker_loop lc methods incl expected node inputs w = Some (Inr n, w') \<Longrightarrow>
   contextValue (treeItem n) \<in> set expected"
proof (induction inputs arbitrary: node w)
  case Nil
  then show ?case by (auto simp: list_ex_iff split: if_splits)
next
  case (Cons inp rest)
  show ?case
  proof (cases "list_ex (\<lambda>val. contextValue (treeItem node) = val) expected")
    case True
    with Cons.prems show ?thesis by (auto simp: list_ex_iff)
  next
    case False
    show ?thesis
    proof (cases "isParentNode node")
      case par: True
      obtain r w1 where p: "pickChildNode lc node (methods (treeItem node)) incl inp expected w = (r, w1)"
        by (cases "pickChildNode lc node (methods (treeItem node)) incl inp expected w")
      show ?thesis
      proof (cases r)
        case (Inl e)
        with Cons.prems False par p show ?thesis by simp
      next
        case (Inr picked)
        with Cons.prems False par p
        have "showNodePicker_loop lc methods incl expected picked rest w1 = Some (Inr n, w')" by simp
        then show ?thesis by (rule Cons.IH)
      qed
    next
      case False
      with Cons.prems \<open>\<not> list_ex (\<lambda>val. contextValue (treeItem node) = val) expected\<close>
      show ?thesis by simp
    qed
  qed
qed

lemma showNodePicker_walk_error:
  "n \<in> set (showNodePicker_walk lc methods incl expected node inputs w) \<Longrightarrow>
   \<not> isParentNode n \<Longrightarrow> contextValue (treeItem n) \<notin> set expected \<Longrightarrow>
   \<exists>w'. showNodePicker_loop lc methods incl expected node inputs w = Some (Inl noResourcesError, w')"
proof (induction inputs arbitrary: node w)
  case Nil
  then show ?case by (simp add: list_ex_iff)
next
  case (Cons inp rest)
  show ?case
  proof (cases "list_ex (\<lambda>val. contextValue (treeItem node) = val) expected")
    case True
    with Cons.prems show ?thesis by (auto simp: list_ex_iff)
  next
    case nm: False
    show ?thesis
    proof (cases "isParentNode node")
      case par: True
      obtain r w1 where p: "pickChildNode lc node (methods (treeItem node)) incl inp expected w = (r, w1)"
        by (cases "pickChildNode lc node (methods (treeItem node)) incl inp expected w")
      show ?thesis
      proof (cases r)
        case (Inl e)
        with Cons.prems nm par p show ?thesis by auto
      next
        case (Inr picked)
        with Cons.prems(1) nm par p
        have "n = node \<or> n \<in> set (showNodePicker_walk lc methods incl expected picked rest w1)" by simp
        with Cons.prems(2) par
        have "n \<in> set (showNodePicker_walk lc methods incl expected picked rest w1)" by auto
        from Cons.IH[OF this Cons.prems(2,3)] Inr nm par p show ?thesis by simp
      qed
    next
      case False
      with nm show ?thesis by simp
    qed
  qed
qed

text \<open>
  Claim C4, as the code has it.  Whatever the user and the network answer, a node that
  \<open>showNodePicker\<close> returns has a context value among the expected ones; and when the walk
  from a starting node examines a node that is not a parent node and whose context value
  is not expected, \<open>showNodePicker\<close> fails with \<open>No matching resources found.\<close>  Both
  are the work of the loop of \<open>showNodePicker\<close>; \<open>pickChildNode\<close> alone promises neither.
\<close>

theorem showNodePicker_tags:
  "(\<forall>n w'. showNodePicker lc methods incl expected startingNode rootPrompt inputs w = Some (Inr n, w')
       \<longrightarrow> contextValue (treeItem n) \<in> set (asArray expected)) \<and>
   (\<forall>node \<in> set (showNodePicker_walk lc methods incl (asArray expected) start inputs w).
       \<not> isParentNode node \<and> contextValue (treeItem node) \<notin> set (asArray expected)
       \<longrightarrow> (\<exists>w'. showNodePicker lc methods incl expected (Some start) rootPrompt inputs w
                   = Some (Inl noResourcesError, w')))"
proof (intro conjI allI impI ballI)
  fix n w'
  assume "showNodePicker lc methods incl expected startingNode rootPrompt inputs w = Some (Inr n, w')"
  then obtain node where
    "showNodePicker_loop lc methods incl (asArray expected) node inputs w = Some (Inr n, w')"
    by (auto simp: showNodePicker_def Let_def split: option.splits sum.splits)
  then show "contextValue (treeItem n) \<in> set (asArray expected)"
    by (rule showNodePicker_loop_tag)
next
  fix node
  assume "node \<in> set (showNodePicker_walk lc methods incl (asArray expected) start inputs w)"
    and "\<not> isParentNode node \<and> contextValue (treeItem node) \<notin> set (asArray expected)"
  then show "\<exists>w'. showNodePicker lc methods incl expected (Some start) rootPrompt inputs w
                   = Some (Inl noResourcesError, w')"
    using showNodePicker_walk_error[of node lc methods incl "asArray expected" start inputs w]
    by (simp add: showNodePicker_def)
qed

lemmas pick_eval =
  pickChildNode_def getQuickPicks_def getCachedChildren_def showQuickPick_def truthy_def
  showNodePicker_def asArray_def noResourcesError_def list_ex_iff
  dismissInput_def loadMoreInput_def pickFirstInput_def

text \<open>On the example parent with \<open>a\<close> and \<open>c\<close> cached, the user choosing the first entry:
  the nodes examined, the pick when items are expected, and the leaf that ends the walk
  when something else is.\<close>

lemma example_walk:
  "map (\<lambda>n. label (treeItem n)) (showNodePicker_walk codeUnitCompare (\<lambda>t. plainResource) (\<lambda>n e. True) (asArray (OneValue ''wanted''))
      exampleRoot [pickFirstInput] loadedTree) = [''root'', ''a'']"
  by (simp add: pick_eval tree_eval)


lemma example_pick_item:
  "\<exists>n w'. showNodePicker codeUnitCompare (\<lambda>t. plainResource) (\<lambda>n e. True) (OneValue ''item'') (Some exampleRoot) None
            [pickFirstInput] loadedTree = Some (Inr n, w') \<and> label (treeItem n) = ''a''"
  by (simp add: pick_eval tree_eval)

lemma example_walk_leaf:
  "\<exists>node. node \<in> set (showNodePicker_walk codeUnitCompare (\<lambda>t. plainResource) (\<lambda>n e. True) (asArray (OneValue ''wanted''))
             exampleRoot [pickFirstInput] loadedTree) \<and>
          \<not> isParentNode node \<and> contextValue (treeItem node) \<notin> set (asArray (OneValue ''wanted''))"
  by (simp add: pick_eval tree_eval ex_disj_distrib conj_disj_distribR)

theorem showNodePicker_tags_witness:
  "(\<exists>n w'. showNodePicker codeUnitCompare (\<lambda>t. plainResource) (\<lambda>n e. True) (OneValue ''item'') (Some exampleRoot) None
            [pickFirstInput] loadedTree = Some (Inr n, w') \<and>
          contextValue (treeItem n) \<in> set (asArray (OneValue ''item''))) \<and>
   (\<exists>w'. showNodePicker codeUnitCompare (\<lambda>t. plainResource) (\<lambda>n e. True) (OneValue ''wanted'') (Some exampleRoot) None
            [pickFirstInput] loadedTree = Some (Inl noResourcesError, w'))"
proof
  from example_pick_item obtain n w' where
    e: "showNodePicker codeUnitCompare (\<lambda>t. plainResource) (\<lambda>n e. True) (OneValue ''item'') (Some exampleRoot) None
            [pickFirstInput] loadedTree = Some (Inr n, w')" by blast
  with showNodePicker_tags[of codeUnitCompare "\<lambda>t. plainResource" "\<lambda>n e. True" "OneValue ''item''" "Some exampleRoot" None
      "[pickFirstInput]" loadedTree exampleRoot]
  have "contextValue (treeItem n) \<in> set (asArray (OneValue ''item''))" by blast
  with e show "\<exists>n w'. showNodePicker codeUnitCompare (\<lambda>t. plainResource) (\<lambda>n e. True) (OneValue ''item'') (Some exampleRoot) None
            [pickFirstInput] loadedTree = Some (Inr n, w') \<and>
          contextValue (treeItem n) \<in> set (asArray (OneValue ''item''))" by blast
next
  from example_walk_leaf obtain node where
    "node \<in> set (showNodePicker_walk codeUnitCompare (\<lambda>t. plainResource) (\<lambda>n e. True) (asArray (OneValue ''wanted''))
             exampleRoot [pickFirstInput] loadedTree)"
    "\<not> isParentNode node \<and> contextValue (treeItem node) \<notin> set (asArray (OneValue ''wanted''))"
    by blast
  with showNodePicker_tags[of codeUnitCompare "\<lambda>t. plainResource" "\<lambda>n e. True" "OneValue ''wanted''" "Some exampleRoot" None
      "[pickFirstInput]" loadedTree exampleRoot]
  show "\<exists>w'. showNodePicker codeUnitCompare (\<lambda>t. plainResource) (\<lambda>n e. True) (OneValue ''wanted'') (Some exampleRoot) None
            [pickFirstInput] loadedTree = Some (Inl noResourcesError, w')" by blast
qed

text \<open>
  Claim C4 as the spec words it fails in what it says of \<open>pickChildNode\<close> itself.  With
  no cached child and nothing to fall back on, the picker is empty and dismissing it is
  the cancellation signal, not the "not found" error; and with more pages to load, the
  "load more" entry returns the parent itself, whose context value is not expected.
\<close>

theorem pickChildNode_wrong_tag_counterexample:
  "fst (pickChildNode codeUnitCompare exampleRoot plainResource (\<lambda>n e. True) dismissInput [''wanted''] exampleTree)
     = Inl UserCancelledError \<and>
   UserCancelledError \<noteq> noResourcesError \<and>
   fst (pickChildNode codeUnitCompare exampleRoot plainResource (\<lambda>n e. True) loadMoreInput [''wanted''] exampleTree)
     = Inr exampleRoot \<and>
   contextValue (treeItem exampleRoot) \<notin> set [''wanted'']"
  by (simp add: pick_eval tree_eval)


section \<open>Properties of \<open>getChildren\<close>\<close>

lemma getRootNodes_flags:
  "getRootNodes account ctx p = (r, ctx', p') \<Longrightarrow>
     rethrowError ctx' = rethrowError ctx \<and> suppressErrorDisplay ctx' = suppressErrorDisplay ctx"
  by (auto simp: getRootNodes_def Let_def split: if_splits prod.splits sum.splits)

text \<open>When the computation of the children throws, it has by then asked the wrapper to
  show nothing and to throw the error on.\<close>

lemma computeChildren_flags:
  assumes "computeChildren lc methods account node page hasMore p ctx = (Inl e, ctx', p')"
  shows "rethrowError ctx' \<and> suppressErrorDisplay ctx'"
proof (cases node)
  case None
  obtain r c1 p1 where g: "getRootNodes account (ctx\<lparr>suppressErrorDisplay := True, rethrowError := True\<rparr>) p = (r, c1, p1)"
    by (cases "getRootNodes account (ctx\<lparr>suppressErrorDisplay := True, rethrowError := True\<rparr>) p") auto
  from getRootNodes_flags[OF g] have "rethrowError c1 \<and> suppressErrorDisplay c1" by simp
  with assms None g show ?thesis
    by (auto simp: computeChildren_def Let_def split: sum.splits)
next
  case (Some n)
  with assms show ?thesis
    by (auto simp: computeChildren_def Let_def split: prod.splits sum.splits if_splits)
qed

text \<open>
  Claim C9, as the code has it.  For every call of \<open>getChildren\<close>, with or without a
  parent node, and whatever the wrapper does with an error of its callback, no error
  escapes \<open>getChildren\<close>.  If computing the children throws, the callback has by then set
  \<open>suppressErrorDisplay\<close> and \<open>rethrowError\<close>; when the wrapper throws an error on, the
  result is a list of a single new node under the given parent that is not a parent
  node, with the context value of an error node and the label \<open>Error: \<close> followed by the
  message parsed from that error; when the wrapper takes the error as handled, the result
  is the wrapper's \<open>undefined\<close> and no node is made.  If computing the children does not
  throw, the result is the list computed.
\<close>

theorem getChildren_never_throws:
  "\<exists>r p'. getChildren policy msg lc methods account node page hasMore p = (Inr r, p') \<and>
     (\<forall>e ctx p1. computeChildren lc methods account node page hasMore p newActionContext = (Inl e, ctx, p1) \<longrightarrow>
        rethrowError ctx \<and> suppressErrorDisplay ctx \<and>
        (case policy ctx e of
           Some e' \<Rightarrow> (\<exists>n. r = Some [n] \<and> treeItem n = errorTreeItem (msg e') \<and> \<not> isParentNode n \<and>
                          parent n = map_option ref node \<and>
                          label (treeItem n) = ''Error: '' @ msg e')
         | None \<Rightarrow> r = None \<and> p' = p1)) \<and>
     (\<forall>ns. fst (computeChildren lc methods account node page hasMore p newActionContext) = Inr ns \<longrightarrow>
        r = Some ns)"
proof -
  obtain r0 ctx' p1 where c: "computeChildren lc methods account node page hasMore p newActionContext = (r0, ctx', p1)"
    by (cases "computeChildren lc methods account node page hasMore p newActionContext") auto
  show ?thesis
  proof (cases r0)
    case (Inl e)
    with c have fl: "rethrowError ctx' \<and> suppressErrorDisplay ctx'"
      by (simp add: computeChildren_flags)
    show ?thesis
    proof (cases "policy ctx' e")
      case None
      with c Inl fl show ?thesis
        by (simp add: getChildren_def callWithTelemetryAndErrorHandling_def)
    next
      case (Some e')
      with c Inl fl show ?thesis
        by (simp add: getChildren_def callWithTelemetryAndErrorHandling_def newAzureNode_def
            errorTreeItem_def Let_def)
    qed
  next
    case (Inr ns)
    with c show ?thesis
      by (simp add: getChildren_def callWithTelemetryAndErrorHandling_def)
  qed
qed

text \<open>The theorem at the root of the tree, where a subscription filter without a display
  name makes \<open>getRootNodes\<close> throw \<open>ArgumentError\<close> and the wrapper throws it on: the error
  node is the whole result.\<close>

lemmas provider_eval =
  getChildren_def callWithTelemetryAndErrorHandling_def computeChildren_def getRootNodes_def
  newActionContext_def errorTreeItem_def newSubscriptionNode_def commandItem_def
  loadMoreTreeItem_def loadMoreLabel_def getCachedChildren_def
  rethrowOnRequest_def cancellationHandled_def
  exampleProvider_def brokenAccount_def

lemma example_computeChildren_throws:
  "\<exists>ctx p1. computeChildren codeUnitCompare (\<lambda>t. plainResource) brokenAccount None (\<lambda>clear. Inr []) False
          exampleProvider newActionContext = (Inl ArgumentError, ctx, p1) \<and>
        cancellationHandled ctx ArgumentError = Some ArgumentError"
  by (simp add: provider_eval tree_eval)

theorem getChildren_never_throws_witness:
  "\<exists>n p'. getChildren cancellationHandled exampleMessage codeUnitCompare (\<lambda>t. plainResource) brokenAccount
            None (\<lambda>clear. Inr []) False exampleProvider = (Inr (Some [n]), p') \<and>
          label (treeItem n) = ''Error: Invalid argument.'' \<and> \<not> isParentNode n"
proof -
  from example_computeChildren_throws obtain ctx p1 where
    c: "computeChildren codeUnitCompare (\<lambda>t. plainResource) brokenAccount None (\<lambda>clear. Inr []) False
          exampleProvider newActionContext = (Inl ArgumentError, ctx, p1)"
    and h: "cancellationHandled ctx ArgumentError = Some ArgumentError"
    by blast
  from getChildren_never_throws[of cancellationHandled exampleMessage codeUnitCompare
      "\<lambda>t. plainResource" brokenAccount None "\<lambda>clear. Inr []" False exampleProvider] c h
  show ?thesis by fastforce
qed

text \<open>The error node shown under a parent whose page fails to load, when the wrapper
  throws the error on.\<close>

lemma example_getChildren_load_fails:
  "fst (getChildren rethrowOnRequest exampleMessage codeUnitCompare (\<lambda>t. plainResource) brokenAccount
          (Some exampleRoot) (\<lambda>clear. Inl (Error ''offline'')) False exampleProvider)
     = Inr (Some [\<lparr>ref = 1, treeItem = errorTreeItem ''offline'', parent = Some 0,
                    isParentNode = False\<rparr>])"
  by (simp add: provider_eval tree_eval)

text \<open>
  Claim C9 as the spec words it fails where the wrapper takes an error as handled, as it
  does with user cancellation: the tree item's page throws \<open>UserCancelledError\<close>, so
  computing the children throws, and \<open>getChildren\<close> returns the wrapper's \<open>undefined\<close>,
  not a list with an error node.
\<close>

theorem getChildren_cancelled_counterexample:
  "fst (computeChildren codeUnitCompare (\<lambda>t. plainResource) brokenAccount (Some exampleRoot)
          (\<lambda>clear. Inl UserCancelledError) False exampleProvider newActionContext)
     = Inl UserCancelledError \<and>
   fst (getChildren cancellationHandled exampleMessage codeUnitCompare (\<lambda>t. plainResource) brokenAccount
          (Some exampleRoot) (\<lambda>clear. Inl UserCancelledError) False exampleProvider)
     = Inr None"
  by (simp add: provider_eval tree_eval)


section \<open>Properties of the deployment poll\<close>

lemma idAfter_Cons:
  "idAfter start (d # ds) = idAfter (if permanent d then the (deployId d) else start) ds"
  by (simp add: idAfter_def split: list.splits)

lemma idAfter_Nil [simp]: "idAfter start [] = start"
  by (simp add: idAfter_def)

lemma upt_0_Suc_map: "[0..<Suc n] = 0 # map Suc [0..<n]"
  by (simp add: upt_conv_Cons map_Suc_upt del: upt_Suc)

lemma queries_shift:
  "map (\<lambda>k. idAfter start (take (Suc k) (d # ds))) [0..<Suc n] =
     idAfter start [d] # map (\<lambda>k. idAfter (if permanent d then the (deployId d) else start) (take (Suc k) ds)) [0..<n]"
  unfolding upt_0_Suc_map by (simp add: idAfter_Cons comp_def del: upt_Suc)

lemma progressTexts_Cons:
  "progressTexts (d # ds) = (if truthy (progress d) then [the (progress d)] else []) @ progressTexts ds"
  by (simp add: progressTexts_def)

lemma endingAnswer_incomplete:
  "\<not> complete d \<Longrightarrow> endingAnswer (Inr d # answers) = endingAnswer answers"
  by (simp add: endingAnswer_def)

lemma poll_loop_spec:
  "poll_loop i start d answers \<lparr>queried = q, waited = wt, logged = l\<rparr> =
     (endingAnswer (Inr d # answers),
      \<lparr>queried = q @ map (\<lambda>k. idAfter start (take (Suc k) (incomplete (Inr d # answers))))
                                [0..<length (incomplete (Inr d # answers))],
       waited = wt @ replicate (length (incomplete (Inr d # answers))) i,
       logged = l @ progressTexts (incomplete (Inr d # answers))\<rparr>)"
proof (induction answers arbitrary: start d q wt l)
  case Nil
  show ?case
    by (cases "complete d")
       (simp_all add: endingAnswer_def Let_def progressTexts_def idAfter_Cons permanent_def)
next
  case (Cons a rest)
  show ?case
  proof (cases "complete d")
    case True
    then show ?thesis by (simp add: endingAnswer_def progressTexts_def)
  next
    case nc: False
    show ?thesis
    proof (cases a)
      case (Inl e)
      with nc show ?thesis
        by (simp add: endingAnswer_def Let_def progressTexts_def idAfter_Cons permanent_def)
    next
      case (Inr d')
      define start1 where "start1 = (if permanent d then the (deployId d) else start)"
      have step: "poll_loop i start d (a # rest) \<lparr>queried = q, waited = wt, logged = l\<rparr> =
          poll_loop i start1 d' rest \<lparr>queried = q @ [start1], waited = wt @ [i],
             logged = l @ (if truthy (progress d) then [the (progress d)] else [])\<rparr>"
        using nc Inr by (simp add: Let_def start1_def permanent_def)
      have inc: "incomplete (Inr d # a # rest) = d # incomplete (Inr d' # rest)"
        using nc Inr by simp
      have q: "map (\<lambda>k. idAfter start (take (Suc k) (d # incomplete (Inr d' # rest))))
                 [0..<Suc (length (incomplete (Inr d' # rest)))] =
               start1 # map (\<lambda>k. idAfter start1 (take (Suc k) (incomplete (Inr d' # rest))))
                 [0..<length (incomplete (Inr d' # rest))]"
        unfolding queries_shift start1_def by (simp add: idAfter_Cons)
      show ?thesis
        unfolding step Cons.IH inc
        using nc Inr q
        by (simp add: endingAnswer_incomplete progressTexts_Cons del: upt_Suc incomplete.simps)
    qed
  qed
qed


lemma endingAnswer_complete: "endingAnswer answers = Some (Inr d) \<Longrightarrow> complete d"
proof (induction answers rule: incomplete.induct)
  case 1
  then show ?case by (simp add: endingAnswer_def)
next
  case (2 e rest)
  then show ?case by (simp add: endingAnswer_def)
next
  case (3 d' rest)
  show ?case
  proof (cases "complete d'")
    case True
    with 3 show ?thesis by (simp add: endingAnswer_def)
  next
    case False
    with 3 show ?thesis by (simp add: endingAnswer_incomplete)
  qed
qed

lemma endingAnswer_None:
  "endingAnswer answers = None \<longleftrightarrow> (\<forall>a\<in>set answers. \<exists>d. a = Inr d \<and> \<not> complete d)"
proof (induction answers rule: incomplete.induct)
  case 1
  then show ?case by (simp add: endingAnswer_def)
next
  case (2 e rest)
  then show ?case by (simp add: endingAnswer_def)
next
  case (3 d' rest)
  show ?case
  proof (cases "complete d'")
    case True
    then show ?thesis by (simp add: endingAnswer_def)
  next
    case False
    with 3 show ?thesis by (simp add: endingAnswer_incomplete)
  qed
qed

lemma latest_queries:
  "''latest'' # map (\<lambda>k. idAfter ''latest'' (take (Suc k) ds)) [0..<n] =
   map (\<lambda>k. idAfter ''latest'' (take k ds)) [0..<Suc n]"
  unfolding upt_0_Suc_map by (simp add: comp_def del: upt_Suc)

text \<open>
  Claim C6, as the code has it.  \<open>waitForDeploymentToComplete\<close> ends with the first
  answer that is an error or a complete result, and stays in the loop while there is
  none; so a result it returns is complete.  It waits the fixed interval (5000 ms unless
  one is given) once for every result that is not complete, and then queries again.  Its
  first query is under \<open>latest\<close>, and the query after some results is under the id that
  the latest non-temporary result with an id among them named, under \<open>latest\<close> while
  there was none.  It logs the progress text of every result that is not complete and
  has one; the progress text of the complete result that ends the loop is not logged.
\<close>

theorem waitForDeploymentToComplete_spec:
  "fst (waitForDeploymentToComplete given answers) = endingAnswer answers \<and>
   (\<forall>d. fst (waitForDeploymentToComplete given answers) = Some (Inr d) \<longrightarrow> complete d) \<and>
   (fst (waitForDeploymentToComplete given answers) = None \<longleftrightarrow>
      (\<forall>a\<in>set answers. \<exists>d. a = Inr d \<and> \<not> complete d)) \<and>
   waited (snd (waitForDeploymentToComplete given answers)) =
      replicate (length (incomplete answers)) (pollingInterval given) \<and>
   queried (snd (waitForDeploymentToComplete given answers)) =
      map (\<lambda>k. idAfter ''latest'' (take k (incomplete answers)))
        [0..<Suc (length (incomplete answers))] \<and>
   logged (snd (waitForDeploymentToComplete given answers)) = progressTexts (incomplete answers)"
proof -
  have run: "waitForDeploymentToComplete given answers =
      (endingAnswer answers,
       \<lparr>queried = map (\<lambda>k. idAfter ''latest'' (take k (incomplete answers)))
                    [0..<Suc (length (incomplete answers))],
        waited = replicate (length (incomplete answers)) (pollingInterval given),
        logged = progressTexts (incomplete answers)\<rparr>)"
  proof (cases answers)
    case Nil
    then show ?thesis
      by (simp add: waitForDeploymentToComplete_def Let_def endingAnswer_def progressTexts_def)
  next
    case (Cons a rest)
    show ?thesis
    proof (cases a)
      case (Inl e)
      with Cons show ?thesis
        by (simp add: waitForDeploymentToComplete_def Let_def endingAnswer_def progressTexts_def)
    next
      case (Inr d)
      have "waitForDeploymentToComplete given answers =
          poll_loop (pollingInterval given) ''latest'' d rest
            \<lparr>queried = [''latest''], waited = [], logged = []\<rparr>"
        using Cons Inr by (simp add: waitForDeploymentToComplete_def Let_def)
      then show ?thesis
        unfolding poll_loop_spec using Cons Inr latest_queries
        by (simp del: upt_Suc incomplete.simps)
    qed
  qed
  show ?thesis
    unfolding run fst_conv snd_conv
    using endingAnswer_complete endingAnswer_None by (simp del: upt_Suc)
qed

text \<open>The theorem on a run of four answers: a temporary deployment, the permanent one
  building twice, and the permanent one complete.\<close>

theorem waitForDeploymentToComplete_spec_witness:
  "fst (waitForDeploymentToComplete None
          [Inr tempResult, Inr buildingResult, Inr buildingResult, Inr doneResult])
     = Some (Inr doneResult) \<and>
   complete doneResult \<and>
   waited (snd (waitForDeploymentToComplete None
          [Inr tempResult, Inr buildingResult, Inr buildingResult, Inr doneResult]))
     = [5000, 5000, 5000] \<and>
   queried (snd (waitForDeploymentToComplete None
          [Inr tempResult, Inr buildingResult, Inr buildingResult, Inr doneResult]))
     = [''latest'', ''latest'', ''abc123'', ''abc123''] \<and>
   logged (snd (waitForDeploymentToComplete None
          [Inr tempResult, Inr buildingResult, Inr buildingResult, Inr doneResult]))
     = [''Preparing'', ''Building'', ''Building'']"
  using waitForDeploymentToComplete_spec[of None
          "[Inr tempResult, Inr buildingResult, Inr buildingResult, Inr doneResult]"]
  by (simp add: endingAnswer_def idAfter_def permanent_def truthy_def progressTexts_def
      pollingInterval_def tempResult_def buildingResult_def doneResult_def upt_rec[of 0])

text \<open>
  Claim C6 as the spec words it fails in "each poll that carries progress text logs it":
  the loop logs inside its body, which a complete result never enters.  A first answer
  that is complete and carries the progress text \<open>Done\<close> is returned with nothing logged.
\<close>

theorem waitForDeploymentToComplete_final_progress_counterexample:
  "waitForDeploymentToComplete None [Inr doneResult] =
     (Some (Inr doneResult), \<lparr>queried = [''latest''], waited = [], logged = []\<rparr>) \<and>
   progress doneResult = Some ''Done''"
  by (simp add: waitForDeploymentToComplete_def Let_def doneResult_def)


section \<open>Properties of the deployment workflows\<close>

lemma resolveZipFile_cases:
  assumes "resolveZipFile fsPath made w = (r, w1)"
  shows "deleteCalls w1 = deleteCalls w \<and> directories w1 = directories w \<and>
     (case r of
        Inl e \<Rightarrow> \<not> packagesZip fsPath made w \<and> getFileExtension fsPath \<noteq> ''zip'' \<and>
                 zipsCreated w1 = zipsCreated w \<and> files w1 = files w
      | Inr z \<Rightarrow>
          snd z = packagesZip fsPath made w \<and>
          (if snd z then zipsCreated w1 = zipsCreated w @ [fst z] \<and> files w1 = insert (fst z) (files w)
           else getFileExtension fsPath = ''zip'' \<and> fst z = fsPath \<and>
                zipsCreated w1 = zipsCreated w \<and> files w1 = files w))"
  using assms
  by (auto simp: resolveZipFile_def packagesZip_def zipDirectory_def appendLine_def
      split: if_splits sum.splits prod.splits)

lemma cleanUpZip_props:
  "zipsCreated (cleanUpZip z w) = zipsCreated w"
  "files (cleanUpZip z w) = (if snd z then files w - {fst z} else files w)"
  "deleteCalls (cleanUpZip z w) = (if snd z then deleteCalls w @ [fst z] else deleteCalls w)"
  by (simp_all add: cleanUpZip_def deleteFile_def)

lemma after_resolve:
  assumes "resolveZipFile fsPath made w = (Inr z, w1)"
    and "zipsCreated w2 = zipsCreated w1" and "files w2 = files w1" and "deleteCalls w2 = deleteCalls w1"
  shows "length (newZips w (cleanUpZip z w2)) = (if packagesZip fsPath made w then 1 else 0) \<and>
     files (cleanUpZip z w2) = files w - set (newZips w (cleanUpZip z w2)) \<and>
     deleteCalls (cleanUpZip z w2) = deleteCalls w @ newZips w (cleanUpZip z w2)"
  using resolveZipFile_cases[OF assms(1)] assms(2-4)
  by (auto simp: cleanUpZip_props newZips_def)

lemma before_resolve:
  assumes "zipsCreated w1 = zipsCreated w" and "files w1 = files w" and "deleteCalls w1 = deleteCalls w"
  shows "length (newZips w w1) = 0 \<and> files w1 = files w - set (newZips w w1) \<and>
     deleteCalls w1 = deleteCalls w @ newZips w w1"
  using assms by (simp add: newZips_def)

lemma uploadAndPoint_keeps:
  "uploadAndPoint inp w = (r, w') \<Longrightarrow>
     zipsCreated w' = zipsCreated w \<and> files w' = files w \<and> deleteCalls w' = deleteCalls w"
  by (auto simp: uploadAndPoint_def appendLine_def Let_def split: sum.splits option.splits prod.splits)

lemma deployZip_cleanup:
  assumes "deployZip fsPath confirmDeployment inp w = (Some r, w')"
  shows "length (newZips w w') =
           (if reachesZip confirmDeployment inp \<and> packagesZip fsPath (zipMade inp) w then 1 else 0) \<and>
         files w' = files w - set (newZips w w') \<and>
         deleteCalls w' = deleteCalls w @ newZips w w'"
proof (cases "reachesZip confirmDeployment inp")
  case False
  with assms have "w' = w"
    by (auto simp: deployZip_def reachesZip_def split: if_splits sum.splits)
  with False show ?thesis by (simp add: newZips_def)
next
  case True
  obtain rz w1 where rs: "resolveZipFile fsPath (zipMade inp) w = (rz, w1)"
    by (cases "resolveZipFile fsPath (zipMade inp) w")
  show ?thesis
  proof (cases rz)
    case (Inl e)
    with assms True rs have "w' = w1"
      by (auto simp: deployZip_def reachesZip_def split: if_splits sum.splits)
    with resolveZipFile_cases[OF rs] Inl True show ?thesis
      by (simp add: newZips_def)
  next
    case (Inr z)
    define w3 where "w3 = (appendLine ''Starting deployment...'' w1)\<lparr>zipsPushed :=
        zipsPushed (appendLine ''Starting deployment...'' w1) @ [fst z]\<rparr>"
    obtain po t where p: "waitForDeploymentToComplete None (statusAnswers inp) = (po, t)"
      by (cases "waitForDeploymentToComplete None (statusAnswers inp)")
    define w4 where "w4 = w3\<lparr>outputLines := outputLines w3 @ logged t\<rparr>"
    have k3: "zipsCreated w3 = zipsCreated w1" "files w3 = files w1" "deleteCalls w3 = deleteCalls w1"
      by (simp_all add: w3_def appendLine_def)
    have k4: "zipsCreated w4 = zipsCreated w1" "files w4 = files w1" "deleteCalls w4 = deleteCalls w1"
      by (simp_all add: w4_def k3)
    have kc: "getKuduClient (credentials inp) = Inr ()"
      and cf: "(confirmDeployment \<and> confirmation inp \<noteq> Some Yes) = False"
      using True by (auto simp: reachesZip_def split: sum.splits)
    have "deployZip fsPath confirmDeployment inp w =
        (case pushError inp of
           Some e \<Rightarrow> (Some (Inl (responseBodyError e)), cleanUpZip z w3)
         | None \<Rightarrow>
             (case po of
                None \<Rightarrow> (None, w4)
              | Some (Inl e) \<Rightarrow> (Some (Inl (responseBodyError e)), cleanUpZip z w4)
              | Some (Inr deployment) \<Rightarrow>
                  (Some (Inr ()), appendLine ''Deployment completed.'' (cleanUpZip z w4))))"
      unfolding deployZip_def cf if_False kc sum.case rs Inr prod.case p Let_def w3_def w4_def
      by (simp split: option.splits sum.splits)
    with assms have
      w': "w' = cleanUpZip z w3 \<or> w' = cleanUpZip z w4 \<or>
           w' = appendLine ''Deployment completed.'' (cleanUpZip z w4)"
      by (auto split: option.splits sum.splits)
    from after_resolve[OF rs[unfolded Inr] k3] after_resolve[OF rs[unfolded Inr] k4] w' True
    show ?thesis
      by (auto simp: appendLine_def newZips_def)
  qed
qed

lemma deployRunFromZip_cleanup:
  assumes "deployRunFromZip fsPath inp w = (r, w')"
  shows "length (newZips w w') = (if packagesZip fsPath (zipMadeR inp) w then 1 else 0) \<and>
         files w' = files w - set (newZips w w') \<and>
         deleteCalls w' = deleteCalls w @ newZips w w'"
proof -
  obtain rz w1 where rs: "resolveZipFile fsPath (zipMadeR inp) w = (rz, w1)"
    by (cases "resolveZipFile fsPath (zipMadeR inp) w")
  show ?thesis
  proof (cases rz)
    case (Inl e)
    with assms rs have "w' = w1" by (simp add: deployRunFromZip_def)
    with resolveZipFile_cases[OF rs] Inl show ?thesis by (simp add: newZips_def)
  next
    case (Inr z)
    obtain ru w2 where u: "uploadAndPoint inp w1 = (ru, w2)" by (cases "uploadAndPoint inp w1")
    from assms rs Inr u have w': "w' = cleanUpZip z w2"
      by (auto simp: deployRunFromZip_def split: sum.splits)
    from uploadAndPoint_keeps[OF u] after_resolve[OF rs[unfolded Inr], of w2] w'
    show ?thesis by simp
  qed
qed

lemma packagesZip_not_zip: "getFileExtension fsPath = ''zip'' \<Longrightarrow> \<not> packagesZip fsPath made w"
  by (simp add: packagesZip_def)


text \<open>
  Claim C5, as the code has it, for \<open>deployZip\<close> and for \<open>deployRunFromZip\<close>.  A call
  that returns has made one zip file when it got to choose its zip file (for \<open>deployZip\<close>:
  the deployment was confirmed where that is asked, and the publishing credentials were
  there), the path was not a zip file's, it was a directory and \<open>zipDirectory\<close>
  succeeded; it has made none otherwise.  On every exit path a zip file made during the
  call does not exist when the call returns, and no other file has been deleted.  When
  the path is a zip file's, no zip file is made and no file is deleted.
\<close>

theorem zip_deleted_on_every_exit:
  "(\<forall>r w'. deployZip fsPath confirmDeployment inp w = (Some r, w') \<longrightarrow>
      length (newZips w w') =
        (if reachesZip confirmDeployment inp \<and> packagesZip fsPath (zipMade inp) w then 1 else 0) \<and>
      (\<forall>z\<in>set (newZips w w'). z \<notin> files w') \<and>
      files w' = files w - set (newZips w w') \<and>
      (getFileExtension fsPath = ''zip'' \<longrightarrow>
         newZips w w' = [] \<and> files w' = files w \<and> deleteCalls w' = deleteCalls w)) \<and>
   (\<forall>r w'. deployRunFromZip fsPath inpR w = (r, w') \<longrightarrow>
      length (newZips w w') = (if packagesZip fsPath (zipMadeR inpR) w then 1 else 0) \<and>
      (\<forall>z\<in>set (newZips w w'). z \<notin> files w') \<and>
      files w' = files w - set (newZips w w') \<and>
      (getFileExtension fsPath = ''zip'' \<longrightarrow>
         newZips w w' = [] \<and> files w' = files w \<and> deleteCalls w' = deleteCalls w))"
proof (intro conjI allI impI)
  fix r w'
  assume a: "deployZip fsPath confirmDeployment inp w = (Some r, w')"
  note c = deployZip_cleanup[OF a]
  show "length (newZips w w') =
        (if reachesZip confirmDeployment inp \<and> packagesZip fsPath (zipMade inp) w then 1 else 0)"
    using c by simp
  show f: "files w' = files w - set (newZips w w')" using c by simp
  show "\<forall>z\<in>set (newZips w w'). z \<notin> files w'" using f by simp
  assume z: "getFileExtension fsPath = ''zip''"
  then have n: "newZips w w' = []" using c packagesZip_not_zip[OF z, of "zipMade inp" w] by simp
  then show "newZips w w' = []" .
  show "files w' = files w" using f n by simp
  show "deleteCalls w' = deleteCalls w" using c n by simp
next
  fix r w'
  assume a: "deployRunFromZip fsPath inpR w = (r, w')"
  note c = deployRunFromZip_cleanup[OF a]
  show "length (newZips w w') = (if packagesZip fsPath (zipMadeR inpR) w then 1 else 0)"
    using c by simp
  show f: "files w' = files w - set (newZips w w')" using c by simp
  show "\<forall>z\<in>set (newZips w w'). z \<notin> files w'" using f by simp
  assume z: "getFileExtension fsPath = ''zip''"
  then have n: "newZips w w' = []" using c packagesZip_not_zip[OF z, of "zipMadeR inpR" w] by simp
  then show "newZips w w' = []" .
  show "files w' = files w" using f n by simp
  show "deleteCalls w' = deleteCalls w" using c n by simp
qed

text \<open>The workflows run on the example machine: \<open>deployZip\<close> of the project directory,
  confirmed and built, and \<open>deployRunFromZip\<close> of the same directory.\<close>

lemmas deploy_eval =
  deployZip_def deployRunFromZip_def uploadAndPoint_def resolveZipFile_def getKuduClient_def
  zipDirectory_def deleteFile_def cleanUpZip_def appendLine_def isDirectory_def
  getFileExtension_def responseBodyError_def truthy_def showQuickPick_def
  waitForDeploymentToComplete_def pollingInterval_def Let_def
  exampleWorld_def goodDeploy_def cancelledDeploy_def goodRunFromZip_def
  buildingResult_def doneResult_def newZips_def

lemma example_deploy_directory:
  "fst (deployZip ''/work/app'' True goodDeploy exampleWorld) = Some (Inr ())"
  "zipsCreated (snd (deployZip ''/work/app'' True goodDeploy exampleWorld)) = [''/tmp/1a2b.zip'']"
  "zipsPushed (snd (deployZip ''/work/app'' True goodDeploy exampleWorld)) = [''/tmp/1a2b.zip'']"
  "reachesZip True goodDeploy" "packagesZip ''/work/app'' (zipMade goodDeploy) exampleWorld"
  by (simp_all add: deploy_eval reachesZip_def packagesZip_def)

lemma example_run_from_zip:
  "fst (deployRunFromZip ''/work/app'' goodRunFromZip exampleWorld) = Inr ()"
  "siteSettings (snd (deployRunFromZip ''/work/app'' goodRunFromZip exampleWorld)) ''WEBSITE_USE_ZIP''
     = Some ''https://store1/zips/3c4d.zip''"
  "deleteCalls (snd (deployRunFromZip ''/work/app'' goodRunFromZip exampleWorld)) = [''/tmp/3c4d.zip'']"
  by (simp_all add: deploy_eval parseAzureResourceId_def charAt_def parse_loop.simps js_index_def)

theorem zip_deleted_on_every_exit_witness:
  "fst (deployZip ''/work/app'' True goodDeploy exampleWorld) = Some (Inr ()) \<and>
   length (newZips exampleWorld (snd (deployZip ''/work/app'' True goodDeploy exampleWorld))) = 1 \<and>
   files (snd (deployZip ''/work/app'' True goodDeploy exampleWorld)) =
     files exampleWorld -
       set (newZips exampleWorld (snd (deployZip ''/work/app'' True goodDeploy exampleWorld)))"
proof -
  have e: "deployZip ''/work/app'' True goodDeploy exampleWorld =
      (Some (Inr ()), snd (deployZip ''/work/app'' True goodDeploy exampleWorld))"
    using example_deploy_directory(1) by (simp add: prod_eq_iff)
  from zip_deleted_on_every_exit[of "''/work/app''" True goodDeploy exampleWorld undefined, THEN conjunct1,
      rule_format, OF e]
  show ?thesis using example_deploy_directory by simp
qed

text \<open>
  Claim C5 as the spec words it fails in "exactly one zip file is created ... on every
  exit path": \<open>deployZip\<close> asks for confirmation before it packages anything.  On a
  directory path, a user who answers \<open>Cancel\<close> ends the call with \<open>UserCancelledError\<close>
  and no zip file was made.
\<close>

theorem deployZip_cancelled_counterexample:
  "isDirectory ''/work/app'' exampleWorld \<and>
   deployZip ''/work/app'' True cancelledDeploy exampleWorld =
     (Some (Inl UserCancelledError), exampleWorld) \<and>
   zipsCreated exampleWorld = []"
  by (simp add: deploy_eval)


section \<open>Properties of the source-control and deletion workflows\<close>

lemma currentSource_nonempty: "currentSource \<noteq> []"
  by (simp add: currentSource_def)

lemma scmQuickPicks_marks:
  "\<forall>p\<in>set picks. (snd p = currentSource) = (Some (fst p) = current) \<Longrightarrow>
   \<forall>p\<in>set (scmQuickPicks types current picks). (snd p = currentSource) = (Some (fst p) = current)"
proof (induction types arbitrary: picks)
  case Nil
  then show ?case by simp
next
  case (Cons t ts)
  have "\<forall>p\<in>set (if Some t = current then (t, currentSource) # picks else picks @ [(t, [])]).
          (snd p = currentSource) = (Some (fst p) = current)"
    using Cons.prems currentSource_nonempty by auto
  from Cons.IH[OF this] show ?case by simp
qed

lemma chosenEntry_marks:
  assumes "chosenEntry types current chosen = Some (l, d)"
  shows "(d = currentSource) = (Some l = current)"
proof -
  from assms obtain i where "i < length (scmQuickPicks types current [])"
    and "scmQuickPicks types current [] ! i = (l, d)"
    by (auto simp: chosenEntry_def showQuickPick_def split: option.splits if_splits)
  then have "(l, d) \<in> set (scmQuickPicks types current [])"
    by (metis nth_mem)
  with scmQuickPicks_marks[of "[]" current types] show ?thesis by fastforce
qed

lemma showScmPrompt_chosen:
  assumes "chosenEntry types current chosen = Some (l, d)"
  shows "showScmPrompt types current chosen = (if Some l = current then Inl UserCancelledError else Inr l)"
  using assms chosenEntry_marks[OF assms]
  by (auto simp: showScmPrompt_def chosenEntry_def split: sum.splits)

text \<open>
  Claim C7, as the code has it.  Let the configuration be read and the user choose an
  entry of the picker.  If it is the current source, \<open>editScmType\<close> throws
  \<open>UserCancelledError\<close> and has made no call but the read.  If it is GitHub while the
  current source is not \<open>None\<close>, it throws the configuration error and has made no call
  but the read.  If it is another source than GitHub, the configuration read, with its
  \<open>scmType\<close> replaced by the choice and nothing else changed, is sent by
  \<open>updateConfiguration\<close>, and the choice is returned unless that call throws.  If it is
  GitHub while the current source is \<open>None\<close>, \<open>connectToGitHub\<close> is run in place of
  \<open>updateConfiguration\<close>, and GitHub is returned unless it throws.
\<close>

theorem editScmType_spec:
  assumes "configRead inp = Inr config"
    and "chosenEntry ScmType (scmType config) (scmChoice inp) = Some (l, d)"
  shows
   "(Some l = scmType config \<longrightarrow>
       fst (editScmType inp s) = Inl UserCancelledError \<and>
       calls (snd (editScmType inp s)) = calls s @ [GetSiteConfig]) \<and>
    (Some l \<noteq> scmType config \<and> l = ''GitHub'' \<and> scmType config \<noteq> Some ''None'' \<longrightarrow>
       fst (editScmType inp s) = Inl configurationError \<and>
       calls (snd (editScmType inp s)) = calls s @ [GetSiteConfig]) \<and>
    (Some l \<noteq> scmType config \<and> l \<noteq> ''GitHub'' \<longrightarrow>
       calls (snd (editScmType inp s)) =
         calls s @ [GetSiteConfig, UpdateConfiguration (config\<lparr>scmType := Some l\<rparr>)] \<and>
       fst (editScmType inp s) = (case updateAnswer inp of Inl e \<Rightarrow> Inl e | Inr c \<Rightarrow> Inr l)) \<and>
    (l = ''GitHub'' \<and> scmType config = Some ''None'' \<longrightarrow>
       calls (snd (editScmType inp s)) = calls s @ [GetSiteConfig, ConnectToGitHub] \<and>
       fst (editScmType inp s) = (case connectError inp of Some e \<Rightarrow> Inl e | None \<Rightarrow> Inr l))"
  using assms(1) showScmPrompt_chosen[OF assms(2)]
  by (auto simp: editScmType_def Let_def called_def printed_def split: sum.splits option.splits)

text \<open>The site wrapper's \<open>editScmType\<close>, which offers no GitHub, returns the \<open>scmType\<close> of
  the configuration the update answers with.\<close>

lemma editScmType_wrapper_spec:
  assumes "configRead inp = Inr config"
    and "chosenEntry SCM_TYPES (scmType config) (scmChoice inp) = Some (l, d)"
  shows
   "(Some l = scmType config \<longrightarrow>
       fst (editScmType_wrapper inp s) = Inl UserCancelledError \<and>
       calls (snd (editScmType_wrapper inp s)) = calls s @ [GetSiteConfig]) \<and>
    (Some l \<noteq> scmType config \<longrightarrow>
       calls (snd (editScmType_wrapper inp s)) =
         calls s @ [GetSiteConfig, UpdateConfiguration (config\<lparr>scmType := Some l\<rparr>)] \<and>
       fst (editScmType_wrapper inp s) =
         (case updateAnswer inp of Inl e \<Rightarrow> Inl e | Inr c \<Rightarrow> Inr (scmType c)))"
  using assms(1) showScmPrompt_chosen[OF assms(2)]
  by (auto simp: editScmType_wrapper_def Let_def called_def split: sum.splits option.splits)

lemmas site_eval =
  editScmType_def editScmType_wrapper_def showScmPrompt_def chosenEntry_def showQuickPick_def
  ScmType_def SCM_TYPES_def currentSource_def configurationError_def called_def printed_def
  deleteSite_def deleteSite_wrapper_def showWarningMessage_def lastSite_def truthy_def Let_def
  noTrace_def localGitConfig_def noneConfig_def scmExample_def lastSiteDelete_def slotDelete_def

text \<open>The theorem on a site whose source is local git: the three entries of the picker.\<close>

theorem editScmType_spec_witness:
  "fst (editScmType (scmExample localGitConfig 0) noTrace) = Inl UserCancelledError \<and>
   calls (snd (editScmType (scmExample localGitConfig 0) noTrace)) = [GetSiteConfig] \<and>
   fst (editScmType (scmExample localGitConfig 2) noTrace) = Inl configurationError \<and>
   calls (snd (editScmType (scmExample localGitConfig 2) noTrace)) = [GetSiteConfig] \<and>
   fst (editScmType (scmExample localGitConfig 1) noTrace) = Inr ''None'' \<and>
   calls (snd (editScmType (scmExample localGitConfig 1) noTrace)) =
     [GetSiteConfig, UpdateConfiguration (localGitConfig\<lparr>scmType := Some ''None''\<rparr>)]"
proof -
  have c: "\<And>i. configRead (scmExample localGitConfig i) = Inr localGitConfig"
    by (simp add: scmExample_def)
  have e0: "chosenEntry ScmType (scmType localGitConfig) (scmChoice (scmExample localGitConfig 0))
      = Some (''LocalGit'', currentSource)"
    and e1: "chosenEntry ScmType (scmType localGitConfig) (scmChoice (scmExample localGitConfig 1))
      = Some (''None'', [])"
    and e2: "chosenEntry ScmType (scmType localGitConfig) (scmChoice (scmExample localGitConfig 2))
      = Some (''GitHub'', [])"
    by (simp_all add: chosenEntry_def showQuickPick_def ScmType_def scmExample_def localGitConfig_def)
  have u: "updateAnswer (scmExample localGitConfig 1) = Inr localGitConfig"
    by (simp add: scmExample_def)
  have t: "scmType localGitConfig = Some ''LocalGit''" by (simp add: localGitConfig_def)
  show ?thesis
    using editScmType_spec[OF c e0, of noTrace] editScmType_spec[OF c e1, of noTrace]
      editScmType_spec[OF c e2, of noTrace] u t
    by (simp add: noTrace_def)
qed

text \<open>
  Claim C7 as the spec words it fails in its "otherwise": choosing GitHub on a site whose
  source is \<open>None\<close> sends no configuration; \<open>editScmType\<close> hands over to
  \<open>connectToGitHub\<close>.
\<close>

theorem editScmType_github_counterexample:
  "scmType noneConfig = Some ''None'' \<and>
   chosenEntry ScmType (scmType noneConfig) (scmChoice (scmExample noneConfig 2)) = Some (''GitHub'', []) \<and>
   fst (editScmType (scmExample noneConfig 2) noTrace) = Inr ''GitHub'' \<and>
   calls (snd (editScmType (scmExample noneConfig 2) noTrace)) = [GetSiteConfig, ConnectToGitHub]"
  by (simp add: site_eval)

text \<open>
  Claim C8, for both versions of \<open>deleteSite\<close>, once the user has confirmed.  For a site
  that is not a deployment slot and whose plan, successfully read, has exactly one site,
  the calls are the confirmation, the reading of the plan, the question about the plan
  and, unless that question is cancelled, the delete call with \<open>deleteEmptyServerFarm\<close>
  true exactly when the answer was yes.  For a deployment slot the calls are the
  confirmation and the delete call: the plan is neither read nor asked about.
\<close>

theorem deleteSite_plan_prompt:
  "(confirmAnswer inp = Some Yes \<and> \<not> truthy slotName \<and> planRead inp = Inr plan \<and>
      numberOfSites plan = Some 1 \<longrightarrow>
      calls (snd (deleteSite_wrapper slotName inp s)) =
        calls s @ [ConfirmDelete, GetAppServicePlan, PlanPrompt] @
          (case planAnswer inp of None \<Rightarrow> [] | Some a \<Rightarrow> [DeleteMethod (a = Yes)])) \<and>
   (confirmAnswer inp = Some Yes \<and> truthy slotName \<longrightarrow>
      calls (snd (deleteSite_wrapper slotName inp s)) = calls s @ [ConfirmDelete, DeleteSlot]) \<and>
   (showWarningMessage (confirmAnswer inp) = Inr r \<and> \<not> isSlot \<and> planRead inp = Inr plan \<and>
      numberOfSites plan = Some 1 \<longrightarrow>
      calls (snd (deleteSite isSlot inp s)) =
        calls s @ [ConfirmDelete, GetAppServicePlan, PlanPrompt] @
          (case showWarningMessage (planAnswer inp) of
             Inl e \<Rightarrow> [] | Inr a \<Rightarrow> [DeleteMethod (a = Yes)])) \<and>
   (showWarningMessage (confirmAnswer inp) = Inr r \<and> isSlot \<longrightarrow>
      calls (snd (deleteSite isSlot inp s)) = calls s @ [ConfirmDelete, DeleteMethod False])"
  by (auto simp: deleteSite_wrapper_def deleteSite_def lastSite_def Let_def called_def printed_def
      split: sum.splits option.splits prod.splits)

text \<open>The theorem on the last site of a plan and on a slot.\<close>

theorem deleteSite_plan_prompt_witness:
  "calls (snd (deleteSite_wrapper None lastSiteDelete noTrace)) =
     [ConfirmDelete, GetAppServicePlan, PlanPrompt, DeleteMethod True] \<and>
   calls (snd (deleteSite_wrapper (Some ''staging'') slotDelete noTrace)) =
     [ConfirmDelete, DeleteSlot] \<and>
   calls (snd (deleteSite False lastSiteDelete noTrace)) =
     [ConfirmDelete, GetAppServicePlan, PlanPrompt, DeleteMethod True] \<and>
   calls (snd (deleteSite True slotDelete noTrace)) = [ConfirmDelete, DeleteMethod False]"
  using deleteSite_plan_prompt[of lastSiteDelete None "\<lparr>planName = ''plan1'', numberOfSites = Some 1\<rparr>"
      noTrace Yes False]
    deleteSite_plan_prompt[of slotDelete "Some ''staging''" "\<lparr>planName = ''plan1'', numberOfSites = Some 1\<rparr>"
      noTrace Yes True]
  by (simp add: lastSiteDelete_def slotDelete_def noTrace_def truthy_def showWarningMessage_def)


end
